theory Spec2Isabelle
  imports Complex_Main "HOL-Library.Sublist"
begin

section \<open>Values, requests and the observable trace\<close>

text \<open>
  The Etherscan client reads \<^verbatim>\<open>response.data\<close>, which TypeScript types as \<^verbatim>\<open>any\<close>:
  whatever the JSON body decoded to. A value of \<open>jsval\<close> is such a JavaScript value.
  A number is kept as the text that \<^verbatim>\<open>String\<close> gives for it (\<^verbatim>\<open>16\<close>,
  \<^verbatim>\<open>0.5\<close>, \<^verbatim>\<open>1e+21\<close>): all the client reads of a number in a response is
  whether it is zero and, in \<^verbatim>\<open>parseInt\<close>, that text. Strings are lists of code
  units below 256, and an object is the list of its properties, a name being read at
  its first binding.
\<close>

datatype jsval =
    JUndefined
  | JNull
  | JBool bool
  | JNum string
  | JStr string
  | JArr "jsval list"
  | JObj "(string \<times> jsval) list"

text \<open>The result of \<^verbatim>\<open>parseInt\<close>: \<^verbatim>\<open>NaN\<close>, an integer that is a double, or
  an infinity.\<close>

datatype jsnum = NaN | Fin int | PosInfinity | NegInfinity

text \<open>
  What can be thrown: the rejection of \<^verbatim>\<open>axios.get\<close> (a network error, a status
  outside 2xx, a body the transport refuses), the \<^verbatim>\<open>TypeError\<close> of the language
  (a property of \<^verbatim>\<open>null\<close> or \<^verbatim>\<open>undefined\<close>, a call of something that is no
  function, the spread of something that is not iterable),
  \<^verbatim>\<open>new Error("...")\<close> with a fixed text, and the error that \<^verbatim>\<open>getLatestBlock\<close>
  builds around the one it caught: \<^verbatim>\<open>new Error(`Error fetching latest block: ${error}`)\<close>.
\<close>

datatype exn =
    AxiosError string
  | TypeError
  | Failure string
  | FetchingLatestBlock exn

datatype reply = Rejected exn | Response jsval

text \<open>A request: the address and the query parameters, which are strings and block
  numbers.\<close>

datatype param = PStr string | PNum int

record request =
  url :: string
  params :: "(string \<times> param) list"

text \<open>
  The lines written to the console, one constructor for each template literal of the
  source with the values that fill its holes.
\<close>

datatype message =
    Processing int int
  | WaitRetry
  | CouldNotFetchInternal string exn
  | CouldNotFetchLogs string exn
  | GettingLogs int jsnum
  | FoundLogs nat

text \<open>
  Everything the program does to the outside world, oldest event first. The remote
  side is a function from the history up to and including the request just sent to the
  reply it gives: any sequence of replies, depending on anything observable, is such
  a function.
\<close>

datatype event =
    Request request
  | Sleep int
  | ConsoleLog message
  | ConsoleWarn message
  | WriteFile string jsval

type_synonym server = "event list \<Rightarrow> reply"

definition axios_get :: "server \<Rightarrow> request \<Rightarrow> event list \<Rightarrow> reply \<times> event list" where
  "axios_get srv rq tr = (srv (tr @ [Request rq]), tr @ [Request rq])"

text \<open>\<^verbatim>\<open>src/utils/general.utils.ts\<close>: \<^verbatim>\<open>sleep\<close> returns at once for a duration
  that is not positive.\<close>

definition sleep :: "int \<Rightarrow> event list \<Rightarrow> event list" where
  "sleep milliseconds tr = (if milliseconds \<le> 0 then tr else tr @ [Sleep milliseconds])"

section \<open>The JavaScript operations the client applies to a response\<close>

text \<open>
  \<^verbatim>\<open>v.status\<close>, \<^verbatim>\<open>v.message\<close>, \<^verbatim>\<open>v.result\<close>: reading a property throws on
  \<^verbatim>\<open>undefined\<close> and \<^verbatim>\<open>null\<close>, looks the name up in an object, and is
  \<^verbatim>\<open>undefined\<close> on every other value (no prototype defines these three names).
\<close>

fun get_prop :: "jsval \<Rightarrow> string \<Rightarrow> exn + jsval" where
  "get_prop JUndefined k = Inl TypeError"
| "get_prop JNull k = Inl TypeError"
| "get_prop (JObj kvs) k = (case map_of kvs k of None \<Rightarrow> Inr JUndefined | Some v \<Rightarrow> Inr v)"
| "get_prop _ k = Inr JUndefined"

text \<open>\<^verbatim>\<open>v === "s"\<close> for a string literal.\<close>

definition strict_eq :: "jsval \<Rightarrow> string \<Rightarrow> bool" where
  "strict_eq v s = (v = JStr s)"

text \<open>
  \<^verbatim>\<open>v.slice(0, 5)\<close>: strings and arrays have the method; on anything else the
  call throws (\<^verbatim>\<open>undefined\<close> has no properties, and decoded JSON holds no function).
\<close>

fun slice_0_5 :: "jsval \<Rightarrow> exn + jsval" where
  "slice_0_5 (JStr s) = Inr (JStr (take 5 s))"
| "slice_0_5 (JArr xs) = Inr (JArr (take 5 xs))"
| "slice_0_5 _ = Inl TypeError"

text \<open>\<^verbatim>\<open>[...v]\<close>: an array spreads to its elements, a string to its characters,
  nothing else is iterable.\<close>

fun spread :: "jsval \<Rightarrow> exn + jsval list" where
  "spread (JArr xs) = Inr xs"
| "spread (JStr s) = Inr (map (\<lambda>c. JStr [c]) s)"
| "spread _ = Inl TypeError"


subsection \<open>Numbers\<close>

text \<open>
  A JavaScript number is a double. Block numbers are modelled as the integers among
  the doubles, and the sum of two of them is the exact sum rounded to the nearest
  double, a tie going to the even significand: \<open>round_nat\<close> keeps the 53 leading
  binary digits of a natural number. Below \<open>2^53\<close> every integer is a double and
  nothing is rounded; from there on only some integers are doubles (the others are no
  arguments of the code), and \<^verbatim>\<open>block + 999\<close> and \<^verbatim>\<open>block += 1000\<close> are not exact. (The sums of
  the loops stay below the largest double; \<^verbatim>\<open>parseInt\<close> can pass it, and gives
  \<^verbatim>\<open>Infinity\<close> then.)
\<close>

function bit_len :: "int \<Rightarrow> nat" where
  "bit_len n = (if n \<le> 0 then 0 else Suc (bit_len (n div 2)))"
  by pat_completeness auto
termination
  by (relation "measure nat") auto

declare bit_len.simps [simp del]

definition round_nat :: "int \<Rightarrow> int" where
  "round_nat n =
     (let k = bit_len n
      in if k \<le> 53 then n
         else
           (let sh = k - 53;
                q = n div 2 ^ sh;
                r = n mod 2 ^ sh;
                half = 2 ^ (sh - 1)
            in (if half < r \<or> (r = half \<and> odd q) then q + 1 else q) * 2 ^ sh))"

definition to_double :: "int \<Rightarrow> int" where
  "to_double x = (if x < 0 then - round_nat (- x) else round_nat x)"

definition js_add :: "int \<Rightarrow> int \<Rightarrow> int" where
  "js_add a b = to_double (a + b)"


subsection \<open>\<^verbatim>\<open>parseInt(v, 16)\<close>\<close>










section \<open>\<^verbatim>\<open>src/api/etherscan.api.ts\<close>: the client\<close>

text \<open>
  \<^verbatim>\<open>EtherscanConstants.BASE_URL\<close>; the key \<^verbatim>\<open>Environment.ETHERSCAN_API_KEY\<close> is read
  from the process environment when the program starts, and is a parameter \<open>key\<close> of
  every operation here.
\<close>

definition BASE_URL :: string where
  "BASE_URL = ''https://api.etherscan.io/v2/api?chainid=1''"


definition internal_request :: "string \<Rightarrow> string \<Rightarrow> int \<Rightarrow> int \<Rightarrow> request" where
  "internal_request key address startblock endblock =
     \<lparr>url = BASE_URL,
      params =
        [(''module'', PStr ''account''),
         (''action'', PStr ''txlistinternal''),
         (''address'', PStr address),
         (''apikey'', PStr key),
         (''startblock'', PNum startblock),
         (''endblock'', PNum endblock)]\<rparr>"

definition logs_request :: "string \<Rightarrow> string \<Rightarrow> string \<Rightarrow> int \<Rightarrow> int \<Rightarrow> request" where
  "logs_request key address topic startblock endblock =
     \<lparr>url = BASE_URL,
      params =
        [(''module'', PStr ''logs''),
         (''action'', PStr ''getLogs''),
         (''fromBlock'', PNum startblock),
         (''toBlock'', PNum endblock),
         (''address'', PStr address),
         (''topic0'', PStr topic),
         (''apikey'', PStr key)]\<rparr>"


text \<open>
  The two conditions of the windowed operations:
  \<^verbatim>\<open>response.data.status === "0" && response.data.message.slice(0, 5) === "NOTOK"\<close>
  (the right operand is evaluated only when the left holds) and
  \<^verbatim>\<open>response.data.status === "1"\<close>.
\<close>

definition is_retry :: "jsval \<Rightarrow> exn + bool" where
  "is_retry d =
     (case get_prop d ''status'' of
        Inl x \<Rightarrow> Inl x
      | Inr st \<Rightarrow>
          if strict_eq st ''0'' then
            (case get_prop d ''message'' of
               Inl x \<Rightarrow> Inl x
             | Inr m \<Rightarrow>
                 (case slice_0_5 m of
                    Inl x \<Rightarrow> Inl x
                  | Inr p \<Rightarrow> Inr (strict_eq p ''NOTOK'')))
          else Inr False)"

definition is_success :: "jsval \<Rightarrow> exn + bool" where
  "is_success d =
     (case get_prop d ''status'' of
        Inl x \<Rightarrow> Inl x
      | Inr st \<Rightarrow> Inr (strict_eq st ''1''))"

text \<open>The \<^verbatim>\<open>catch\<close> blocks of the two operations: a warning, and the empty array.\<close>

definition internal_catch :: "string \<Rightarrow> exn \<Rightarrow> event list \<Rightarrow> ((exn + jsval) \<times> event list) option" where
  "internal_catch address x tr =
     Some (Inr (JArr []), tr @ [ConsoleWarn (CouldNotFetchInternal address x)])"

definition logs_catch :: "string \<Rightarrow> exn \<Rightarrow> event list \<Rightarrow> ((exn + jsval) \<times> event list) option" where
  "logs_catch address x tr =
     Some (Inr (JArr []), tr @ [ConsoleWarn (CouldNotFetchLogs address x)])"

text \<open>
  \<^verbatim>\<open>getInternalTransactionsByAddress\<close> and \<^verbatim>\<open>getLogsByAddressTopic\<close>. The retry is a
  call of the operation itself with no bound, so the operation may never return:
  \<open>None\<close> is that. A returned pair holds \<open>Inl\<close> for a rejected promise and \<open>Inr\<close>
  for a fulfilled one, with the trace at that moment. The call sits inside the
  \<^verbatim>\<open>try\<close>, so a rejection of the inner call would be caught as well.
\<close>

partial_function (option) api_getInternalTransactionsByAddress ::
  "server \<Rightarrow> string \<Rightarrow> string \<Rightarrow> int \<Rightarrow> int \<Rightarrow> event list \<Rightarrow> ((exn + jsval) \<times> event list) option"
where
  "api_getInternalTransactionsByAddress srv key address startblock endblock tr =
     (case axios_get srv (internal_request key address startblock endblock) tr of
        (Rejected x, tr1) \<Rightarrow> internal_catch address x tr1
      | (Response d, tr1) \<Rightarrow>
          (case is_retry d of
             Inl x \<Rightarrow> internal_catch address x tr1
           | Inr retry \<Rightarrow>
               if retry then
                 Option.bind
                   (api_getInternalTransactionsByAddress srv key address startblock endblock
                      (sleep 1000 (tr1 @ [ConsoleLog WaitRetry])))
                   (\<lambda>(r, tr2). case r of
                      Inl x \<Rightarrow> internal_catch address x tr2
                    | Inr v \<Rightarrow> Some (Inr v, tr2))
               else
                 (case is_success d of
                    Inl x \<Rightarrow> internal_catch address x tr1
                  | Inr success \<Rightarrow>
                      if success then
                        (case get_prop d ''result'' of
                           Inl x \<Rightarrow> internal_catch address x tr1
                         | Inr v \<Rightarrow> Some (Inr v, tr1))
                      else Some (Inr (JArr []), tr1))))"

partial_function (option) api_getLogsByAddressTopic ::
  "server \<Rightarrow> string \<Rightarrow> string \<Rightarrow> string \<Rightarrow> int \<Rightarrow> int \<Rightarrow> event list \<Rightarrow> ((exn + jsval) \<times> event list) option"
where
  "api_getLogsByAddressTopic srv key address topic startblock endblock tr =
     (case axios_get srv (logs_request key address topic startblock endblock) tr of
        (Rejected x, tr1) \<Rightarrow> logs_catch address x tr1
      | (Response d, tr1) \<Rightarrow>
          (case is_retry d of
             Inl x \<Rightarrow> logs_catch address x tr1
           | Inr retry \<Rightarrow>
               if retry then
                 Option.bind
                   (api_getLogsByAddressTopic srv key address topic startblock endblock
                      (sleep 1000 (tr1 @ [ConsoleLog WaitRetry])))
                   (\<lambda>(r, tr2). case r of
                      Inl x \<Rightarrow> logs_catch address x tr2
                    | Inr v \<Rightarrow> Some (Inr v, tr2))
               else
                 (case is_success d of
                    Inl x \<Rightarrow> logs_catch address x tr1
                  | Inr success \<Rightarrow>
                      if success then
                        (case get_prop d ''result'' of
                           Inl x \<Rightarrow> logs_catch address x tr1
                         | Inr v \<Rightarrow> Some (Inr v, tr1))
                      else Some (Inr (JArr []), tr1))))"

declare api_getInternalTransactionsByAddress.simps [code]
declare api_getLogsByAddressTopic.simps [code]

section \<open>\<^verbatim>\<open>src/services/etherscan.service.ts\<close>: the windowed fetch\<close>

text \<open>
  The \<^verbatim>\<open>for\<close> loops, with the loop variable \<open>block\<close> and the accumulator
  \<open>result\<close> as arguments. Block numbers are integer doubles, and \<^verbatim>\<open>+\<close> is
  \<open>js_add\<close>: far above \<open>2^53\<close> the loop variable no longer moves, so a loop may
  run for ever (\<open>None\<close>), as it does while its client operation does not return. A
  throw inside the loop (\<open>Inl\<close>) leaves it for the \<^verbatim>\<open>catch\<close> of the enclosing
  operation.
\<close>

partial_function (option) internal_loop ::
  "server \<Rightarrow> string \<Rightarrow> string \<Rightarrow> int \<Rightarrow> int \<Rightarrow> jsval list \<Rightarrow> event list
    \<Rightarrow> ((exn + jsval list) \<times> event list) option"
where
  "internal_loop srv key address endblock block result tr =
     (if block \<le> endblock then
        (let start = block;
             end = (if js_add block 9999 < endblock then js_add block 9999 else endblock)
         in Option.bind
              (api_getInternalTransactionsByAddress srv key address start end
                 (tr @ [ConsoleLog (Processing start end)]))
              (\<lambda>(r, tr2). case r of
                 Inl x \<Rightarrow> Some (Inl x, tr2)
               | Inr data \<Rightarrow>
                   (case spread data of
                      Inl x \<Rightarrow> Some (Inl x, tr2)
                    | Inr items \<Rightarrow>
                        internal_loop srv key address endblock (js_add block 10000)
                          (result @ items) tr2)))
      else Some (Inr result, tr))"

partial_function (option) logs_loop ::
  "server \<Rightarrow> string \<Rightarrow> string \<Rightarrow> string \<Rightarrow> int \<Rightarrow> int \<Rightarrow> jsval list \<Rightarrow> event list
    \<Rightarrow> ((exn + jsval list) \<times> event list) option"
where
  "logs_loop srv key address topic endblock block result tr =
     (if block \<le> endblock then
        (let start = block;
             end = (if js_add block 999 < endblock then js_add block 999 else endblock)
         in Option.bind
              (api_getLogsByAddressTopic srv key address topic start end
                 (tr @ [ConsoleLog (Processing start end)]))
              (\<lambda>(r, tr2). case r of
                 Inl x \<Rightarrow> Some (Inl x, tr2)
               | Inr data \<Rightarrow>
                   (case spread data of
                      Inl x \<Rightarrow> Some (Inl x, tr2)
                    | Inr items \<Rightarrow>
                        logs_loop srv key address topic endblock (js_add block 1000)
                          (result @ items) tr2)))
      else Some (Inr result, tr))"

declare internal_loop.simps [code]
declare logs_loop.simps [code]

text \<open>The end of the window that a loop forms at \<open>block\<close>, for the statements
  below: the loop's own expression.\<close>

definition internal_window_end :: "int \<Rightarrow> int \<Rightarrow> int" where
  "internal_window_end block endblock =
     (if js_add block 9999 < endblock then js_add block 9999 else endblock)"

definition logs_window_end :: "int \<Rightarrow> int \<Rightarrow> int" where
  "logs_window_end block endblock =
     (if js_add block 999 < endblock then js_add block 999 else endblock)"

text \<open>
  \<^verbatim>\<open>EtherscanService.getInternalTransactionsByAddress\<close> and
  \<^verbatim>\<open>EtherscanService.getLogsByAddressTopic\<close>: the loop from \<open>startblock\<close> with the
  empty accumulator, inside \<^verbatim>\<open>try\<close>; the \<^verbatim>\<open>catch\<close> warns and returns \<^verbatim>\<open>[]\<close>.
\<close>

definition service_getInternalTransactionsByAddress ::
  "server \<Rightarrow> string \<Rightarrow> string \<Rightarrow> int \<Rightarrow> int \<Rightarrow> event list \<Rightarrow> (jsval list \<times> event list) option"
where
  "service_getInternalTransactionsByAddress srv key address startblock endblock tr =
     (case internal_loop srv key address endblock startblock [] tr of
        None \<Rightarrow> None
      | Some (Inl x, tr') \<Rightarrow> Some ([], tr' @ [ConsoleWarn (CouldNotFetchInternal address x)])
      | Some (Inr result, tr') \<Rightarrow> Some (result, tr'))"

definition service_getLogsByAddressTopic ::
  "server \<Rightarrow> string \<Rightarrow> string \<Rightarrow> string \<Rightarrow> int \<Rightarrow> int \<Rightarrow> event list \<Rightarrow> (jsval list \<times> event list) option"
where
  "service_getLogsByAddressTopic srv key address topic startblock endblock tr =
     (case logs_loop srv key address topic endblock startblock [] tr of
        None \<Rightarrow> None
      | Some (Inl x, tr') \<Rightarrow> Some ([], tr' @ [ConsoleWarn (CouldNotFetchLogs address x)])
      | Some (Inr result, tr') \<Rightarrow> Some (result, tr'))"

section \<open>\<^verbatim>\<open>src/get-logs.ts\<close>: the entry point\<close>


section \<open>The vocabulary of the specification\<close>

text \<open>
  A reply is a transient failure when its status is \<^verbatim>\<open>"0"\<close> and its message begins
  with \<^verbatim>\<open>NOTOK\<close>.
\<close>

definition notok_reply :: "reply \<Rightarrow> bool" where
  "notok_reply rp =
     (case rp of
        Rejected x \<Rightarrow> False
      | Response d \<Rightarrow>
          get_prop d ''status'' = Inr (JStr ''0'') \<and>
          (case get_prop d ''message'' of
             Inr (JStr m) \<Rightarrow> prefix ''NOTOK'' m
           | _ \<Rightarrow> False))"

text \<open>The trace after \<open>n\<close> rounds of request, console line and one second of sleep.\<close>

fun after_retries :: "request \<Rightarrow> nat \<Rightarrow> event list \<Rightarrow> event list" where
  "after_retries rq 0 tr = tr"
| "after_retries rq (Suc n) tr =
     after_retries rq n (tr @ [Request rq, ConsoleLog WaitRetry, Sleep 1000])"





text \<open>
  The block numbers on which the arithmetic of the loops is exact: every sum the loop
  forms for a range inside these bounds is an integer below \<open>2^53\<close>.
\<close>

definition safe_range :: "int \<Rightarrow> int \<Rightarrow> bool" where
  "safe_range s e = (- 9007199254740992 < s \<and> e + 10000 < 9007199254740992)"

text \<open>
  The algorithm of the specification for a window size \<open>w\<close>: the cursor starts at the
  start of the range, each window ends at \<open>min (cursor + w - 1) end\<close>, and the cursor
  moves on by \<open>w\<close>. (A size that is not positive gives no window: the loop of the
  specification would not end.)
\<close>

function spec_windows :: "int \<Rightarrow> int \<Rightarrow> int \<Rightarrow> (int \<times> int) list" where
  "spec_windows w cursor e =
     (if 0 < w \<and> cursor \<le> e
      then (cursor, min (cursor + w - 1) e) # spec_windows w (cursor + w) e
      else [])"
  by pat_completeness auto
termination
  by (relation "measure (\<lambda>(w, cursor, e). nat (e - cursor + 1))") auto

declare spec_windows.simps [simp del]

text \<open>
  Calling a client operation on each window of a list in turn, with the console line
  and the accumulation of the service's loop body.
\<close>

fun run_windows ::
  "(int \<Rightarrow> int \<Rightarrow> event list \<Rightarrow> ((exn + jsval) \<times> event list) option)
    \<Rightarrow> (int \<times> int) list \<Rightarrow> jsval list \<Rightarrow> event list
    \<Rightarrow> ((exn + jsval list) \<times> event list) option"
where
  "run_windows call [] result tr = Some (Inr result, tr)"
| "run_windows call ((a, b) # ws) result tr =
     (case call a b (tr @ [ConsoleLog (Processing a b)]) of
        None \<Rightarrow> None
      | Some (Inl x, tr2) \<Rightarrow> Some (Inl x, tr2)
      | Some (Inr data, tr2) \<Rightarrow>
          (case spread data of
             Inl x \<Rightarrow> Some (Inl x, tr2)
           | Inr items \<Rightarrow> run_windows call ws (result @ items) tr2))"

text \<open>The windows a trace shows: its \<^verbatim>\<open>Processing from ... to ...\<close> lines, in order.\<close>

fun windows_of :: "event list \<Rightarrow> (int \<times> int) list" where
  "windows_of [] = []"
| "windows_of (ConsoleLog (Processing a b) # tr) = (a, b) # windows_of tr"
| "windows_of (ev # tr) = windows_of tr"

section \<open>Replies and servers of the examples\<close>

definition reply_notok :: reply where
  "reply_notok =
     Response (JObj [(''status'', JStr ''0''), (''message'', JStr ''NOTOK''),
                     (''result'', JStr ''Max rate limit reached'')])"

definition reply_no_records :: reply where
  "reply_no_records =
     Response (JObj [(''status'', JStr ''0''), (''message'', JStr ''No records found''),
                     (''result'', JArr [])])"

definition reply_ok :: "jsval list \<Rightarrow> reply" where
  "reply_ok xs =
     Response (JObj [(''status'', JStr ''1''), (''message'', JStr ''OK''), (''result'', JArr xs)])"

definition is_request :: "event \<Rightarrow> bool" where
  "is_request ev = (case ev of Request rq \<Rightarrow> True | _ \<Rightarrow> False)"

definition is_warning :: "event \<Rightarrow> bool" where
  "is_warning ev = (case ev of ConsoleWarn m \<Rightarrow> True | _ \<Rightarrow> False)"

text \<open>A server that is busy for its first \<open>n\<close> requests and then answers with \<open>xs\<close>.\<close>

definition busy_server :: "nat \<Rightarrow> jsval list \<Rightarrow> server" where
  "busy_server n xs tr = (if length (filter is_request tr) \<le> n then reply_notok else reply_ok xs)"

definition record_at :: "string \<Rightarrow> jsval" where
  "record_at b = JObj [(''blockNumber'', JStr b)]"

text \<open>
  The records a server holds for a window that starts at \<open>a\<close>: five in the windows
  from 0 and from 2000, none elsewhere. The server answers a request for logs from its
  \<^verbatim>\<open>fromBlock\<close>, and a window without records with \<^verbatim>\<open>No records found\<close>.
\<close>

definition example_records :: "int \<Rightarrow> int \<Rightarrow> jsval list" where
  "example_records a b =
     (if a = 0 then map record_at [''10'', ''11'', ''12'', ''500'', ''999'']
      else if a = 2000 then map record_at [''2000'', ''2001'', ''2002'', ''2500'', ''2999'']
      else [])"

definition example_server :: server where
  "example_server tr =
     (case rev tr of
        Request rq # older \<Rightarrow>
          (case map_of (params rq) ''fromBlock'' of
             Some (PNum a) \<Rightarrow>
               if example_records a 0 = [] then reply_no_records
               else reply_ok (example_records a 0)
           | _ \<Rightarrow> reply_no_records)
      | _ \<Rightarrow> Rejected (AxiosError ''no request''))"

section \<open>The client: one step, retries, and what it never does\<close>

lemma prefix_NOTOK: "prefix ''NOTOK'' m \<longleftrightarrow> take 5 m = ''NOTOK''"
proof
  assume "prefix ''NOTOK'' m"
  then obtain r where "m = ''NOTOK'' @ r" by (auto simp: prefix_def)
  then show "take 5 m = ''NOTOK''" by simp
next
  assume "take 5 m = ''NOTOK''"
  then have "m = ''NOTOK'' @ drop 5 m" by (metis append_take_drop_id)
  then show "prefix ''NOTOK'' m" by (metis prefixI)
qed

text \<open>The condition of the source is the transient failure of the specification.\<close>

lemma is_retry_notok: "is_retry d = Inr True \<longleftrightarrow> notok_reply (Response d)"
proof (cases "get_prop d ''status''")
  case (Inl x)
  then show ?thesis by (simp add: is_retry_def notok_reply_def)
next
  case st: (Inr st)
  show ?thesis
  proof (cases "get_prop d ''message''")
    case (Inl x)
    with st show ?thesis by (simp add: is_retry_def notok_reply_def strict_eq_def)
  next
    case (Inr m)
    with st show ?thesis
      by (cases m) (auto simp: is_retry_def notok_reply_def strict_eq_def prefix_NOTOK)
  qed
qed

lemma notok_reply_Response:
  assumes "notok_reply rp"
  obtains d where "rp = Response d" and "is_retry d = Inr True"
  using assms by (cases rp) (auto simp: notok_reply_def is_retry_notok)

lemma windows_of_append: "windows_of (tr @ tr') = windows_of tr @ windows_of tr'"
  by (induction tr rule: windows_of.induct) auto

subsection \<open>\<^verbatim>\<open>getInternalTransactionsByAddress\<close>\<close>

lemma internal_returns_value:
  assumes "api_getInternalTransactionsByAddress srv key address s e tr = Some y"
  shows "\<exists>v. fst y = Inr v"
  by (rule api_getInternalTransactionsByAddress.raw_induct
        [where P = "\<lambda>_ _ _ _ _ _ y. \<exists>v. fst y = Inr v", OF _ assms])
     (auto simp: axios_get_def internal_catch_def
        split: reply.splits sum.splits if_splits Option.bind_split_asm)

text \<open>So the \<^verbatim>\<open>catch\<close> around the inner call has nothing to catch.\<close>

lemma internal_inner_catch:
  "Option.bind (api_getInternalTransactionsByAddress srv key address s e tr)
     (\<lambda>(r, tr2). case r of Inl x \<Rightarrow> internal_catch address x tr2 | Inr v \<Rightarrow> Some (Inr v, tr2))
   = api_getInternalTransactionsByAddress srv key address s e tr"
proof (cases "api_getInternalTransactionsByAddress srv key address s e tr")
  case None
  then show ?thesis by simp
next
  case (Some y)
  from internal_returns_value [OF Some] Some show ?thesis by (cases y) auto
qed

lemma internal_unfold:
  "api_getInternalTransactionsByAddress srv key address s e tr =
     (case srv (tr @ [Request (internal_request key address s e)]) of
        Rejected x \<Rightarrow>
          Some (Inr (JArr []),
                tr @ [Request (internal_request key address s e),
                      ConsoleWarn (CouldNotFetchInternal address x)])
      | Response d \<Rightarrow>
          (case is_retry d of
             Inl x \<Rightarrow>
               Some (Inr (JArr []),
                     tr @ [Request (internal_request key address s e),
                           ConsoleWarn (CouldNotFetchInternal address x)])
           | Inr retry \<Rightarrow>
               if retry then
                 api_getInternalTransactionsByAddress srv key address s e
                   (tr @ [Request (internal_request key address s e), ConsoleLog WaitRetry, Sleep 1000])
               else
                 (case is_success d of
                    Inl x \<Rightarrow>
                      Some (Inr (JArr []),
                            tr @ [Request (internal_request key address s e),
                                  ConsoleWarn (CouldNotFetchInternal address x)])
                  | Inr success \<Rightarrow>
                      if success then
                        (case get_prop d ''result'' of
                           Inl x \<Rightarrow>
                             Some (Inr (JArr []),
                                   tr @ [Request (internal_request key address s e),
                                         ConsoleWarn (CouldNotFetchInternal address x)])
                         | Inr v \<Rightarrow> Some (Inr v, tr @ [Request (internal_request key address s e)]))
                      else Some (Inr (JArr []), tr @ [Request (internal_request key address s e)]))))"
  apply (subst api_getInternalTransactionsByAddress.simps)
  apply (simp add: axios_get_def sleep_def internal_inner_catch internal_catch_def
      split: reply.splits sum.splits)
  done

lemma internal_rejected:
  assumes "srv (tr @ [Request (internal_request key address s e)]) = Rejected x"
  shows "api_getInternalTransactionsByAddress srv key address s e tr =
           Some (Inr (JArr []),
                 tr @ [Request (internal_request key address s e),
                       ConsoleWarn (CouldNotFetchInternal address x)])"
  by (subst internal_unfold) (simp add: assms)

lemma internal_type_error:
  assumes "srv (tr @ [Request (internal_request key address s e)]) = Response d"
    and "is_retry d = Inl x"
  shows "api_getInternalTransactionsByAddress srv key address s e tr =
           Some (Inr (JArr []),
                 tr @ [Request (internal_request key address s e),
                       ConsoleWarn (CouldNotFetchInternal address x)])"
  by (subst internal_unfold) (simp add: assms)

lemma internal_retry_step:
  assumes "notok_reply (srv (tr @ [Request (internal_request key address s e)]))"
  shows "api_getInternalTransactionsByAddress srv key address s e tr =
           api_getInternalTransactionsByAddress srv key address s e
             (tr @ [Request (internal_request key address s e), ConsoleLog WaitRetry, Sleep 1000])"
proof -
  from assms obtain d where "srv (tr @ [Request (internal_request key address s e)]) = Response d"
    and "is_retry d = Inr True"
    by (rule notok_reply_Response)
  then show ?thesis by (subst internal_unfold) simp
qed

lemma internal_success:
  assumes "srv (tr @ [Request (internal_request key address s e)]) = Response (JObj kvs)"
    and "map_of kvs ''status'' = Some (JStr ''1'')"
  shows "api_getInternalTransactionsByAddress srv key address s e tr =
           Some (Inr (case map_of kvs ''result'' of None \<Rightarrow> JUndefined | Some v \<Rightarrow> v),
                 tr @ [Request (internal_request key address s e)])"
  by (subst internal_unfold)
     (simp add: assms is_retry_def is_success_def strict_eq_def split: option.splits)

lemma internal_settled:
  assumes "\<not> notok_reply (srv (tr @ [Request (internal_request key address s e)]))"
  shows "\<exists>v w. api_getInternalTransactionsByAddress srv key address s e tr =
           Some (Inr v, tr @ Request (internal_request key address s e) # w)"
proof (cases "srv (tr @ [Request (internal_request key address s e)])")
  case (Rejected x)
  then show ?thesis by (simp add: internal_rejected)
next
  case (Response d)
  with assms have "is_retry d \<noteq> Inr True" by (simp add: is_retry_notok)
  with Response show ?thesis
    by (subst internal_unfold) (auto split: sum.splits)
qed

lemma internal_retries:
  "(\<And>i. i < n \<Longrightarrow>
      notok_reply (srv (after_retries (internal_request key address s e) i tr
                         @ [Request (internal_request key address s e)])))
   \<Longrightarrow> api_getInternalTransactionsByAddress srv key address s e tr =
       api_getInternalTransactionsByAddress srv key address s e
         (after_retries (internal_request key address s e) n tr)"
proof (induction n arbitrary: tr)
  case 0
  show ?case by simp
next
  case (Suc n)
  let ?rq = "internal_request key address s e"
  let ?tr = "tr @ [Request ?rq, ConsoleLog WaitRetry, Sleep 1000]"
  from Suc.prems [of 0] have "notok_reply (srv (tr @ [Request ?rq]))" by simp
  then have "api_getInternalTransactionsByAddress srv key address s e tr =
             api_getInternalTransactionsByAddress srv key address s e ?tr"
    by (rule internal_retry_step)
  also have "\<dots> = api_getInternalTransactionsByAddress srv key address s e (after_retries ?rq n ?tr)"
  proof (rule Suc.IH)
    fix i assume "i < n"
    then show "notok_reply (srv (after_retries ?rq i ?tr @ [Request ?rq]))"
      using Suc.prems [of "Suc i"] by simp
  qed
  finally show ?case by simp
qed

lemma internal_diverges:
  assumes "\<And>i. notok_reply (srv (after_retries (internal_request key address s e) i tr
                         @ [Request (internal_request key address s e)]))"
  shows "api_getInternalTransactionsByAddress srv key address s e tr = None"
proof (rule ccontr)
  assume "api_getInternalTransactionsByAddress srv key address s e tr \<noteq> None"
  then obtain y where y: "api_getInternalTransactionsByAddress srv key address s e tr = Some y"
    by auto
  have "\<not> (\<forall>i. notok_reply (srv (after_retries (internal_request key address s e) i tr
                         @ [Request (internal_request key address s e)])))"
    apply (rule api_getInternalTransactionsByAddress.raw_induct
        [where P = "\<lambda>srv key address s e tr y.
            \<not> (\<forall>i. notok_reply (srv (after_retries (internal_request key address s e) i tr
                         @ [Request (internal_request key address s e)])))", OF _ y])
    subgoal premises prems for f srv key address s e tr y
    proof
      let ?rq = "internal_request key address s e"
      assume all: "\<forall>i. notok_reply (srv (after_retries ?rq i tr @ [Request ?rq]))"
      from all [rule_format, of 0] have "notok_reply (srv (tr @ [Request ?rq]))" by simp
      then obtain d where "srv (tr @ [Request ?rq]) = Response d" and "is_retry d = Inr True"
        by (rule notok_reply_Response)
      with prems(2) obtain y' where
        "f srv key address s e (tr @ [Request ?rq, ConsoleLog WaitRetry, Sleep 1000]) = Some y'"
        by (auto simp: axios_get_def sleep_def split: Option.bind_split_asm)
      from prems(1) [OF this] all [rule_format, of "Suc _"] show False by simp
    qed
    done
  with assms show False by blast
qed

text \<open>The client writes no \<^verbatim>\<open>Processing\<close> line.\<close>

lemma internal_windows_of:
  assumes "api_getInternalTransactionsByAddress srv key address s e tr = Some y"
  shows "windows_of (snd y) = windows_of tr"
  by (rule api_getInternalTransactionsByAddress.raw_induct
        [where P = "\<lambda>_ _ _ _ _ tr y. windows_of (snd y) = windows_of tr", OF _ assms])
     (auto simp: axios_get_def internal_catch_def sleep_def windows_of_append
        split: reply.splits sum.splits if_splits Option.bind_split_asm)

subsection \<open>\<^verbatim>\<open>getLogsByAddressTopic\<close>\<close>

lemma logs_returns_value:
  assumes "api_getLogsByAddressTopic srv key address topic s e tr = Some y"
  shows "\<exists>v. fst y = Inr v"
  by (rule api_getLogsByAddressTopic.raw_induct
        [where P = "\<lambda>_ _ _ _ _ _ _ y. \<exists>v. fst y = Inr v", OF _ assms])
     (auto simp: axios_get_def logs_catch_def
        split: reply.splits sum.splits if_splits Option.bind_split_asm)

text \<open>The same facts for the second operation.\<close>

lemma logs_inner_catch:
  "Option.bind (api_getLogsByAddressTopic srv key address topic s e tr)
     (\<lambda>(r, tr2). case r of Inl x \<Rightarrow> logs_catch address x tr2 | Inr v \<Rightarrow> Some (Inr v, tr2))
   = api_getLogsByAddressTopic srv key address topic s e tr"
proof (cases "api_getLogsByAddressTopic srv key address topic s e tr")
  case None
  then show ?thesis by simp
next
  case (Some y)
  from logs_returns_value [OF Some] Some show ?thesis by (cases y) auto
qed

lemma logs_unfold:
  "api_getLogsByAddressTopic srv key address topic s e tr =
     (case srv (tr @ [Request (logs_request key address topic s e)]) of
        Rejected x \<Rightarrow>
          Some (Inr (JArr []),
                tr @ [Request (logs_request key address topic s e),
                      ConsoleWarn (CouldNotFetchLogs address x)])
      | Response d \<Rightarrow>
          (case is_retry d of
             Inl x \<Rightarrow>
               Some (Inr (JArr []),
                     tr @ [Request (logs_request key address topic s e),
                           ConsoleWarn (CouldNotFetchLogs address x)])
           | Inr retry \<Rightarrow>
               if retry then
                 api_getLogsByAddressTopic srv key address topic s e
                   (tr @ [Request (logs_request key address topic s e), ConsoleLog WaitRetry, Sleep 1000])
               else
                 (case is_success d of
                    Inl x \<Rightarrow>
                      Some (Inr (JArr []),
                            tr @ [Request (logs_request key address topic s e),
                                  ConsoleWarn (CouldNotFetchLogs address x)])
                  | Inr success \<Rightarrow>
                      if success then
                        (case get_prop d ''result'' of
                           Inl x \<Rightarrow>
                             Some (Inr (JArr []),
                                   tr @ [Request (logs_request key address topic s e),
                                         ConsoleWarn (CouldNotFetchLogs address x)])
                         | Inr v \<Rightarrow> Some (Inr v, tr @ [Request (logs_request key address topic s e)]))
                      else Some (Inr (JArr []), tr @ [Request (logs_request key address topic s e)]))))"
  apply (subst api_getLogsByAddressTopic.simps)
  apply (simp add: axios_get_def sleep_def logs_inner_catch logs_catch_def
      split: reply.splits sum.splits)
  done

lemma logs_rejected:
  assumes "srv (tr @ [Request (logs_request key address topic s e)]) = Rejected x"
  shows "api_getLogsByAddressTopic srv key address topic s e tr =
           Some (Inr (JArr []),
                 tr @ [Request (logs_request key address topic s e),
                       ConsoleWarn (CouldNotFetchLogs address x)])"
  by (subst logs_unfold) (simp add: assms)

lemma logs_type_error:
  assumes "srv (tr @ [Request (logs_request key address topic s e)]) = Response d"
    and "is_retry d = Inl x"
  shows "api_getLogsByAddressTopic srv key address topic s e tr =
           Some (Inr (JArr []),
                 tr @ [Request (logs_request key address topic s e),
                       ConsoleWarn (CouldNotFetchLogs address x)])"
  by (subst logs_unfold) (simp add: assms)

lemma logs_retry_step:
  assumes "notok_reply (srv (tr @ [Request (logs_request key address topic s e)]))"
  shows "api_getLogsByAddressTopic srv key address topic s e tr =
           api_getLogsByAddressTopic srv key address topic s e
             (tr @ [Request (logs_request key address topic s e), ConsoleLog WaitRetry, Sleep 1000])"
proof -
  from assms obtain d where "srv (tr @ [Request (logs_request key address topic s e)]) = Response d"
    and "is_retry d = Inr True"
    by (rule notok_reply_Response)
  then show ?thesis by (subst logs_unfold) simp
qed

lemma logs_success:
  assumes "srv (tr @ [Request (logs_request key address topic s e)]) = Response (JObj kvs)"
    and "map_of kvs ''status'' = Some (JStr ''1'')"
  shows "api_getLogsByAddressTopic srv key address topic s e tr =
           Some (Inr (case map_of kvs ''result'' of None \<Rightarrow> JUndefined | Some v \<Rightarrow> v),
                 tr @ [Request (logs_request key address topic s e)])"
  by (subst logs_unfold)
     (simp add: assms is_retry_def is_success_def strict_eq_def split: option.splits)

lemma logs_settled:
  assumes "\<not> notok_reply (srv (tr @ [Request (logs_request key address topic s e)]))"
  shows "\<exists>v w. api_getLogsByAddressTopic srv key address topic s e tr =
           Some (Inr v, tr @ Request (logs_request key address topic s e) # w)"
proof (cases "srv (tr @ [Request (logs_request key address topic s e)])")
  case (Rejected x)
  then show ?thesis by (simp add: logs_rejected)
next
  case (Response d)
  with assms have "is_retry d \<noteq> Inr True" by (simp add: is_retry_notok)
  with Response show ?thesis
    by (subst logs_unfold) (auto split: sum.splits)
qed

lemma logs_retries:
  "(\<And>i. i < n \<Longrightarrow>
      notok_reply (srv (after_retries (logs_request key address topic s e) i tr
                         @ [Request (logs_request key address topic s e)])))
   \<Longrightarrow> api_getLogsByAddressTopic srv key address topic s e tr =
       api_getLogsByAddressTopic srv key address topic s e
         (after_retries (logs_request key address topic s e) n tr)"
proof (induction n arbitrary: tr)
  case 0
  show ?case by simp
next
  case (Suc n)
  let ?rq = "logs_request key address topic s e"
  let ?tr = "tr @ [Request ?rq, ConsoleLog WaitRetry, Sleep 1000]"
  from Suc.prems [of 0] have "notok_reply (srv (tr @ [Request ?rq]))" by simp
  then have "api_getLogsByAddressTopic srv key address topic s e tr =
             api_getLogsByAddressTopic srv key address topic s e ?tr"
    by (rule logs_retry_step)
  also have "\<dots> = api_getLogsByAddressTopic srv key address topic s e (after_retries ?rq n ?tr)"
  proof (rule Suc.IH)
    fix i assume "i < n"
    then show "notok_reply (srv (after_retries ?rq i ?tr @ [Request ?rq]))"
      using Suc.prems [of "Suc i"] by simp
  qed
  finally show ?case by simp
qed

lemma logs_diverges:
  assumes "\<And>i. notok_reply (srv (after_retries (logs_request key address topic s e) i tr
                         @ [Request (logs_request key address topic s e)]))"
  shows "api_getLogsByAddressTopic srv key address topic s e tr = None"
proof (rule ccontr)
  assume "api_getLogsByAddressTopic srv key address topic s e tr \<noteq> None"
  then obtain y where y: "api_getLogsByAddressTopic srv key address topic s e tr = Some y"
    by auto
  have "\<not> (\<forall>i. notok_reply (srv (after_retries (logs_request key address topic s e) i tr
                         @ [Request (logs_request key address topic s e)])))"
    apply (rule api_getLogsByAddressTopic.raw_induct
        [where P = "\<lambda>srv key address topic s e tr y.
            \<not> (\<forall>i. notok_reply (srv (after_retries (logs_request key address topic s e) i tr
                         @ [Request (logs_request key address topic s e)])))", OF _ y])
    subgoal premises prems for f srv key address topic s e tr y
    proof
      let ?rq = "logs_request key address topic s e"
      assume all: "\<forall>i. notok_reply (srv (after_retries ?rq i tr @ [Request ?rq]))"
      from all [rule_format, of 0] have "notok_reply (srv (tr @ [Request ?rq]))" by simp
      then obtain d where "srv (tr @ [Request ?rq]) = Response d" and "is_retry d = Inr True"
        by (rule notok_reply_Response)
      with prems(2) obtain y' where
        "f srv key address topic s e (tr @ [Request ?rq, ConsoleLog WaitRetry, Sleep 1000]) = Some y'"
        by (auto simp: axios_get_def sleep_def split: Option.bind_split_asm)
      from prems(1) [OF this] all [rule_format, of "Suc _"] show False by simp
    qed
    done
  with assms show False by blast
qed

lemma logs_windows_of:
  assumes "api_getLogsByAddressTopic srv key address topic s e tr = Some y"
  shows "windows_of (snd y) = windows_of tr"
  by (rule api_getLogsByAddressTopic.raw_induct
        [where P = "\<lambda>_ _ _ _ _ _ tr y. windows_of (snd y) = windows_of tr", OF _ assms])
     (auto simp: axios_get_def logs_catch_def sleep_def windows_of_append
        split: reply.splits sum.splits if_splits Option.bind_split_asm)

section \<open>A response with status 1\<close>

text \<open>
  C10. For every response whose status field is \<^verbatim>\<open>"1"\<close>, each of the two client
  operations returns the \<^verbatim>\<open>result\<close> field as it is (\<^verbatim>\<open>undefined\<close> when the
  response has none), after that one request and without a console line or a sleep,
  whatever the message is: a message that begins with \<^verbatim>\<open>NOTOK\<close> starts no retry,
  since the retry needs status \<^verbatim>\<open>"0"\<close>.
\<close>

theorem success_status_returns_result:
  "(srv (tr @ [Request (internal_request key address s e)]) = Response (JObj kvs) \<and>
    map_of kvs ''status'' = Some (JStr ''1'')
    \<longrightarrow> api_getInternalTransactionsByAddress srv key address s e tr =
          Some (Inr (case map_of kvs ''result'' of None \<Rightarrow> JUndefined | Some v \<Rightarrow> v),
                tr @ [Request (internal_request key address s e)]))
   \<and> (srv (tr @ [Request (logs_request key address topic s e)]) = Response (JObj kvs) \<and>
      map_of kvs ''status'' = Some (JStr ''1'')
      \<longrightarrow> api_getLogsByAddressTopic srv key address topic s e tr =
            Some (Inr (case map_of kvs ''result'' of None \<Rightarrow> JUndefined | Some v \<Rightarrow> v),
                  tr @ [Request (logs_request key address topic s e)]))"
  by (simp add: internal_success logs_success)

text \<open>A response with status \<^verbatim>\<open>"1"\<close> and the message \<^verbatim>\<open>NOTOK\<close>: one request, the
  record returned.\<close>

theorem success_status_returns_result_witness:
  "api_getInternalTransactionsByAddress
     (\<lambda>h. Response (JObj [(''status'', JStr ''1''), (''message'', JStr ''NOTOK''),
                          (''result'', JArr [record_at ''7''])]))
     ''key'' ''0xa4'' 0 9999 [] =
     Some (Inr (JArr [record_at ''7'']), [Request (internal_request ''key'' ''0xa4'' 0 9999)])
   \<and> api_getLogsByAddressTopic
     (\<lambda>h. Response (JObj [(''status'', JStr ''1''), (''message'', JStr ''NOTOK''),
                          (''result'', JArr [record_at ''7''])]))
     ''key'' ''0xa4'' ''0xddf2'' 0 999 [] =
     Some (Inr (JArr [record_at ''7'']), [Request (logs_request ''key'' ''0xa4'' ''0xddf2'' 0 999)])"
  using success_status_returns_result
    [where srv = "\<lambda>h. Response (JObj [(''status'', JStr ''1''), (''message'', JStr ''NOTOK''),
                          (''result'', JArr [record_at ''7''])])"
       and kvs = "[(''status'', JStr ''1''), (''message'', JStr ''NOTOK''),
                          (''result'', JArr [record_at ''7''])]"
       and tr = "[]" and key = "''key''" and address = "''0xa4''" and topic = "''0xddf2''"
       and s = 0]
  by simp

section \<open>The transient failure: wait and retry, without a bound\<close>

text \<open>
  C2. When the reply has status \<^verbatim>\<open>"0"\<close> and a message that begins with
  \<^verbatim>\<open>NOTOK\<close>, each client operation writes its console line, sleeps 1000 ms and
  runs again with the same address, topic and block range, so it sends the same
  request again. The number of retries has no bound: after any number \<open>n\<close> of such
  replies, a reply with status \<^verbatim>\<open>"1"\<close> ends the operation with the result of that
  last reply, the same request having been sent \<open>n + 1\<close> times with \<open>n\<close> sleeps of
  1000 ms between; and when every reply is a transient failure the operation never
  returns.
\<close>

theorem notok_waits_and_retries:
  "(notok_reply (srv (tr @ [Request (internal_request key address s e)]))
    \<longrightarrow> api_getInternalTransactionsByAddress srv key address s e tr =
          api_getInternalTransactionsByAddress srv key address s e
            (tr @ [Request (internal_request key address s e), ConsoleLog WaitRetry, Sleep 1000]))
   \<and> (notok_reply (srv (tr @ [Request (logs_request key address topic s e)]))
      \<longrightarrow> api_getLogsByAddressTopic srv key address topic s e tr =
            api_getLogsByAddressTopic srv key address topic s e
              (tr @ [Request (logs_request key address topic s e), ConsoleLog WaitRetry, Sleep 1000]))
   \<and> ((\<forall>i<n. notok_reply (srv (after_retries (internal_request key address s e) i tr
                                   @ [Request (internal_request key address s e)]))) \<and>
      srv (after_retries (internal_request key address s e) n tr
             @ [Request (internal_request key address s e)]) = Response (JObj kvs) \<and>
      map_of kvs ''status'' = Some (JStr ''1'')
      \<longrightarrow> api_getInternalTransactionsByAddress srv key address s e tr =
            Some (Inr (case map_of kvs ''result'' of None \<Rightarrow> JUndefined | Some v \<Rightarrow> v),
                  after_retries (internal_request key address s e) n tr
                    @ [Request (internal_request key address s e)]))
   \<and> ((\<forall>i<n. notok_reply (srv (after_retries (logs_request key address topic s e) i tr
                                   @ [Request (logs_request key address topic s e)]))) \<and>
      srv (after_retries (logs_request key address topic s e) n tr
             @ [Request (logs_request key address topic s e)]) = Response (JObj kvs) \<and>
      map_of kvs ''status'' = Some (JStr ''1'')
      \<longrightarrow> api_getLogsByAddressTopic srv key address topic s e tr =
            Some (Inr (case map_of kvs ''result'' of None \<Rightarrow> JUndefined | Some v \<Rightarrow> v),
                  after_retries (logs_request key address topic s e) n tr
                    @ [Request (logs_request key address topic s e)]))
   \<and> ((\<forall>i. notok_reply (srv (after_retries (internal_request key address s e) i tr
                                 @ [Request (internal_request key address s e)])))
      \<longrightarrow> api_getInternalTransactionsByAddress srv key address s e tr = None)
   \<and> ((\<forall>i. notok_reply (srv (after_retries (logs_request key address topic s e) i tr
                                 @ [Request (logs_request key address topic s e)])))
      \<longrightarrow> api_getLogsByAddressTopic srv key address topic s e tr = None)"
proof (intro conjI impI)
  assume "notok_reply (srv (tr @ [Request (internal_request key address s e)]))"
  then show "api_getInternalTransactionsByAddress srv key address s e tr =
          api_getInternalTransactionsByAddress srv key address s e
            (tr @ [Request (internal_request key address s e), ConsoleLog WaitRetry, Sleep 1000])"
    by (rule internal_retry_step)
next
  assume "notok_reply (srv (tr @ [Request (logs_request key address topic s e)]))"
  then show "api_getLogsByAddressTopic srv key address topic s e tr =
            api_getLogsByAddressTopic srv key address topic s e
              (tr @ [Request (logs_request key address topic s e), ConsoleLog WaitRetry, Sleep 1000])"
    by (rule logs_retry_step)
next
  let ?rq = "internal_request key address s e"
  assume a: "(\<forall>i<n. notok_reply (srv (after_retries ?rq i tr @ [Request ?rq]))) \<and>
      srv (after_retries ?rq n tr @ [Request ?rq]) = Response (JObj kvs) \<and>
      map_of kvs ''status'' = Some (JStr ''1'')"
  then have "api_getInternalTransactionsByAddress srv key address s e tr =
      api_getInternalTransactionsByAddress srv key address s e (after_retries ?rq n tr)"
    by (intro internal_retries) simp
  also from a have "\<dots> =
      Some (Inr (case map_of kvs ''result'' of None \<Rightarrow> JUndefined | Some v \<Rightarrow> v),
            after_retries ?rq n tr @ [Request ?rq])"
    by (intro internal_success) simp_all
  finally show "api_getInternalTransactionsByAddress srv key address s e tr =
      Some (Inr (case map_of kvs ''result'' of None \<Rightarrow> JUndefined | Some v \<Rightarrow> v),
            after_retries ?rq n tr @ [Request ?rq])" .
next
  let ?rq = "logs_request key address topic s e"
  assume a: "(\<forall>i<n. notok_reply (srv (after_retries ?rq i tr @ [Request ?rq]))) \<and>
      srv (after_retries ?rq n tr @ [Request ?rq]) = Response (JObj kvs) \<and>
      map_of kvs ''status'' = Some (JStr ''1'')"
  then have "api_getLogsByAddressTopic srv key address topic s e tr =
      api_getLogsByAddressTopic srv key address topic s e (after_retries ?rq n tr)"
    by (intro logs_retries) simp
  also from a have "\<dots> =
      Some (Inr (case map_of kvs ''result'' of None \<Rightarrow> JUndefined | Some v \<Rightarrow> v),
            after_retries ?rq n tr @ [Request ?rq])"
    by (intro logs_success) simp_all
  finally show "api_getLogsByAddressTopic srv key address topic s e tr =
      Some (Inr (case map_of kvs ''result'' of None \<Rightarrow> JUndefined | Some v \<Rightarrow> v),
            after_retries ?rq n tr @ [Request ?rq])" .
next
  assume "\<forall>i. notok_reply (srv (after_retries (internal_request key address s e) i tr
                                 @ [Request (internal_request key address s e)]))"
  then show "api_getInternalTransactionsByAddress srv key address s e tr = None"
    by (intro internal_diverges) simp
next
  assume "\<forall>i. notok_reply (srv (after_retries (logs_request key address topic s e) i tr
                                 @ [Request (logs_request key address topic s e)]))"
  then show "api_getLogsByAddressTopic srv key address topic s e tr = None"
    by (intro logs_diverges) simp
qed

text \<open>
  A server that is busy twice and then answers: three identical requests, two sleeps
  of 1000 ms, and the record of the third reply. A server that is always busy: the
  operation never returns.
\<close>

theorem notok_waits_and_retries_witness:
  "api_getInternalTransactionsByAddress (busy_server 2 [record_at ''7'']) ''key'' ''0xa4'' 0 9999 [] =
     Some (Inr (JArr [record_at ''7'']),
           [Request (internal_request ''key'' ''0xa4'' 0 9999), ConsoleLog WaitRetry, Sleep 1000,
            Request (internal_request ''key'' ''0xa4'' 0 9999), ConsoleLog WaitRetry, Sleep 1000,
            Request (internal_request ''key'' ''0xa4'' 0 9999)])
   \<and> api_getLogsByAddressTopic (busy_server 2 [record_at ''7'']) ''key'' ''0xa4'' ''0xddf2'' 0 999 [] =
     Some (Inr (JArr [record_at ''7'']),
           [Request (logs_request ''key'' ''0xa4'' ''0xddf2'' 0 999), ConsoleLog WaitRetry, Sleep 1000,
            Request (logs_request ''key'' ''0xa4'' ''0xddf2'' 0 999), ConsoleLog WaitRetry, Sleep 1000,
            Request (logs_request ''key'' ''0xa4'' ''0xddf2'' 0 999)])
   \<and> api_getInternalTransactionsByAddress (\<lambda>h. reply_notok) ''key'' ''0xa4'' 0 9999 [] = None
   \<and> api_getLogsByAddressTopic (\<lambda>h. reply_notok) ''key'' ''0xa4'' ''0xddf2'' 0 999 [] = None"
proof -
  note busy = notok_waits_and_retries
    [where srv = "busy_server 2 [record_at ''7'']" and tr = "[]" and n = "Suc (Suc 0)"
       and key = "''key''" and address = "''0xa4''" and topic = "''0xddf2''" and s = 0
       and kvs = "[(''status'', JStr ''1''), (''message'', JStr ''OK''),
                   (''result'', JArr [record_at ''7''])]"]
  note always = notok_waits_and_retries
    [where srv = "\<lambda>h. reply_notok" and tr = "[]"
       and key = "''key''" and address = "''0xa4''" and topic = "''0xddf2''" and s = 0]
  note defs = busy_server_def is_request_def reply_notok_def reply_ok_def notok_reply_def
    less_Suc_eq
  have "api_getInternalTransactionsByAddress (busy_server 2 [record_at ''7'']) ''key'' ''0xa4'' 0 9999 [] =
     Some (Inr (JArr [record_at ''7'']),
           [Request (internal_request ''key'' ''0xa4'' 0 9999), ConsoleLog WaitRetry, Sleep 1000,
            Request (internal_request ''key'' ''0xa4'' 0 9999), ConsoleLog WaitRetry, Sleep 1000,
            Request (internal_request ''key'' ''0xa4'' 0 9999)])"
    using busy [THEN conjunct2, THEN conjunct2, THEN conjunct1, of 9999] by (simp add: defs)
  moreover
  have "api_getLogsByAddressTopic (busy_server 2 [record_at ''7'']) ''key'' ''0xa4'' ''0xddf2'' 0 999 [] =
     Some (Inr (JArr [record_at ''7'']),
           [Request (logs_request ''key'' ''0xa4'' ''0xddf2'' 0 999), ConsoleLog WaitRetry, Sleep 1000,
            Request (logs_request ''key'' ''0xa4'' ''0xddf2'' 0 999), ConsoleLog WaitRetry, Sleep 1000,
            Request (logs_request ''key'' ''0xa4'' ''0xddf2'' 0 999)])"
    using busy [THEN conjunct2, THEN conjunct2, THEN conjunct2, THEN conjunct1, of 999]
    by (simp add: defs)
  moreover
  have "api_getInternalTransactionsByAddress (\<lambda>h. reply_notok) ''key'' ''0xa4'' 0 9999 [] = None"
    using always [THEN conjunct2, THEN conjunct2, THEN conjunct2, THEN conjunct2, THEN conjunct1,
        of 9999]
    by (simp add: defs)
  moreover
  have "api_getLogsByAddressTopic (\<lambda>h. reply_notok) ''key'' ''0xa4'' ''0xddf2'' 0 999 [] = None"
    using always [THEN conjunct2, THEN conjunct2, THEN conjunct2, THEN conjunct2, THEN conjunct2,
        of 999]
    by (simp add: defs)
  ultimately show ?thesis by (intro conjI)
qed

section \<open>Where the arithmetic of the loops is exact\<close>

lemma bit_len_le: "n < 2 ^ k \<Longrightarrow> bit_len n \<le> k"
proof (induction k arbitrary: n)
  case 0
  then show ?case by (subst bit_len.simps) simp
next
  case (Suc k)
  show ?case
  proof (cases "n \<le> 0")
    case True
    then show ?thesis by (subst bit_len.simps) simp
  next
    case False
    from Suc.prems have "n div 2 < 2 ^ k" by simp
    from Suc.IH [OF this] False show ?thesis by (subst bit_len.simps) simp
  qed
qed

lemma round_nat_exact: "n < 9007199254740992 \<Longrightarrow> round_nat n = n"
proof -
  assume "n < 9007199254740992"
  then have "n < 2 ^ 53" by simp
  then have "bit_len n \<le> 53" by (rule bit_len_le)
  then show ?thesis by (simp add: round_nat_def)
qed

lemma to_double_exact:
  "- 9007199254740992 < x \<Longrightarrow> x < 9007199254740992 \<Longrightarrow> to_double x = x"
  by (simp add: to_double_def round_nat_exact)

lemma js_add_safe:
  assumes "safe_range b e" and "b \<le> e" and "0 \<le> k" and "k \<le> 10000"
  shows "js_add b k = b + k"
  using assms by (simp add: js_add_def safe_range_def to_double_exact)

lemma safe_range_next: "safe_range b e \<Longrightarrow> 0 \<le> k \<Longrightarrow> safe_range (b + k) e"
  by (simp add: safe_range_def)

lemma internal_window_end_safe:
  "safe_range b e \<Longrightarrow> b \<le> e \<Longrightarrow> internal_window_end b e = min (b + 9999) e"
  by (simp add: internal_window_end_def js_add_safe)

lemma logs_window_end_safe:
  "safe_range b e \<Longrightarrow> b \<le> e \<Longrightarrow> logs_window_end b e = min (b + 999) e"
  by (simp add: logs_window_end_def js_add_safe)

section \<open>The service: one turn of the loop\<close>

lemma internal_loop_step:
  assumes "block \<le> endblock"
  shows "internal_loop srv key address endblock block result tr =
     (case api_getInternalTransactionsByAddress srv key address block
             (internal_window_end block endblock)
             (tr @ [ConsoleLog (Processing block (internal_window_end block endblock))]) of
        None \<Rightarrow> None
      | Some (Inl x, tr2) \<Rightarrow> Some (Inl x, tr2)
      | Some (Inr data, tr2) \<Rightarrow>
          (case spread data of
             Inl x \<Rightarrow> Some (Inl x, tr2)
           | Inr items \<Rightarrow>
               internal_loop srv key address endblock (js_add block 10000) (result @ items) tr2))"
  using assms
  by (subst internal_loop.simps)
     (simp add: Let_def internal_window_end_def split: option.splits sum.splits)

lemma internal_loop_done:
  "\<not> block \<le> endblock \<Longrightarrow>
     internal_loop srv key address endblock block result tr = Some (Inr result, tr)"
  by (subst internal_loop.simps) simp

lemma logs_loop_step:
  assumes "block \<le> endblock"
  shows "logs_loop srv key address topic endblock block result tr =
     (case api_getLogsByAddressTopic srv key address topic block
             (logs_window_end block endblock)
             (tr @ [ConsoleLog (Processing block (logs_window_end block endblock))]) of
        None \<Rightarrow> None
      | Some (Inl x, tr2) \<Rightarrow> Some (Inl x, tr2)
      | Some (Inr data, tr2) \<Rightarrow>
          (case spread data of
             Inl x \<Rightarrow> Some (Inl x, tr2)
           | Inr items \<Rightarrow>
               logs_loop srv key address topic endblock (js_add block 1000) (result @ items) tr2))"
  using assms
  by (subst logs_loop.simps)
     (simp add: Let_def logs_window_end_def split: option.splits sum.splits)

lemma logs_loop_done:
  "\<not> block \<le> endblock \<Longrightarrow>
     logs_loop srv key address topic endblock block result tr = Some (Inr result, tr)"
  by (subst logs_loop.simps) simp

lemma spread_Inl: "spread data = Inl x \<Longrightarrow> x = TypeError"
  by (cases data) auto

text \<open>Whatever a loop throws is the \<^verbatim>\<open>TypeError\<close> of its own spread.\<close>

lemma internal_loop_throws:
  assumes "internal_loop srv key address endblock block result tr = Some y"
  shows "\<forall>x. fst y = Inl x \<longrightarrow> x = TypeError"
  apply (rule internal_loop.raw_induct
      [where P = "\<lambda>_ _ _ _ _ _ _ y. \<forall>x. fst y = Inl x \<longrightarrow> x = TypeError", OF _ assms])
  subgoal premises prems for f srv key address endblock block result tr y
  proof (intro allI impI)
    fix x
    assume x: "fst y = Inl x"
    show "x = TypeError"
    proof (cases "block \<le> endblock")
      case False
      with prems(2) x show ?thesis by auto
    next
      case True
      with prems(2) obtain q tr2 where
        c: "api_getInternalTransactionsByAddress srv key address block
              (internal_window_end block endblock)
              (tr @ [ConsoleLog (Processing block (internal_window_end block endblock))])
            = Some (q, tr2)"
        and r: "(case q of
                   Inl x \<Rightarrow> Some (Inl x, tr2)
                 | Inr data \<Rightarrow>
                     (case spread data of
                        Inl x \<Rightarrow> Some (Inl x, tr2)
                      | Inr items \<Rightarrow>
                          f srv key address endblock (js_add block 10000) (result @ items) tr2))
                = Some y"
        by (auto simp: Let_def internal_window_end_def split: Option.bind_split_asm)
      from internal_returns_value [OF c] obtain data where q: "q = Inr data" by auto
      show ?thesis
      proof (cases "spread data")
        case (Inl z)
        with r q x have "x = z" by auto
        with Inl show ?thesis by (simp add: spread_Inl)
      next
        case (Inr items)
        with r q have "f srv key address endblock (js_add block 10000) (result @ items) tr2 = Some y"
          by simp
        from prems(1) [OF this] x show ?thesis by simp
      qed
    qed
  qed
  done

text \<open>A loop whose variable no longer moves, over a client that always returns
  something iterable, never ends.\<close>

lemma internal_loop_stuck:
  assumes "block \<le> endblock" and "js_add block 10000 = block"
    and "\<And>a b h y. api_getInternalTransactionsByAddress srv key address a b h = Some y
           \<Longrightarrow> \<exists>items. fst y = Inr (JArr items)"
  shows "internal_loop srv key address endblock block result tr = None"
proof (rule ccontr)
  assume "internal_loop srv key address endblock block result tr \<noteq> None"
  then obtain y where y: "internal_loop srv key address endblock block result tr = Some y"
    by auto
  have "(srv, key, address, endblock, block) \<noteq> (srv, key, address, endblock, block)"
    apply (rule internal_loop.raw_induct
        [where P = "\<lambda>srv' key' address' endblock' block' result' tr' y.
            (srv', key', address', endblock', block') \<noteq> (srv, key, address, endblock, block)",
         OF _ y])
    subgoal premises prems for f srv' key' address' endblock' block' result' tr' y'
    proof
      assume "(srv', key', address', endblock', block') = (srv, key, address, endblock, block)"
      then have eq: "srv' = srv" "key' = key" "address' = address" "endblock' = endblock"
        "block' = block"
        by simp_all
      note body = prems(2) [unfolded eq]
      from body assms(1) obtain q tr2 where
        c: "api_getInternalTransactionsByAddress srv key address block
              (internal_window_end block endblock)
              (tr' @ [ConsoleLog (Processing block (internal_window_end block endblock))])
            = Some (q, tr2)"
        and r: "(case q of
                   Inl x \<Rightarrow> Some (Inl x, tr2)
                 | Inr data \<Rightarrow>
                     (case spread data of
                        Inl x \<Rightarrow> Some (Inl x, tr2)
                      | Inr items \<Rightarrow>
                          f srv key address endblock (js_add block 10000) (result' @ items) tr2))
                = Some y'"
        by (auto simp: Let_def internal_window_end_def split: Option.bind_split_asm)
      from assms(3) [OF c] obtain items where q: "q = Inr (JArr items)" by auto
      from r q assms(2)
      have "f srv key address endblock block (result' @ items) tr2 = Some y'"
        by simp
      from prems(1) [OF this] show False by simp
    qed
    done
  then show False by simp
qed

lemma logs_loop_throws:
  assumes "logs_loop srv key address topic endblock block result tr = Some y"
  shows "\<forall>x. fst y = Inl x \<longrightarrow> x = TypeError"
  apply (rule logs_loop.raw_induct
      [where P = "\<lambda>_ _ _ _ _ _ _ _ y. \<forall>x. fst y = Inl x \<longrightarrow> x = TypeError", OF _ assms])
  subgoal premises prems for f srv key address topic endblock block result tr y
  proof (intro allI impI)
    fix x
    assume x: "fst y = Inl x"
    show "x = TypeError"
    proof (cases "block \<le> endblock")
      case False
      with prems(2) x show ?thesis by auto
    next
      case True
      with prems(2) obtain q tr2 where
        c: "api_getLogsByAddressTopic srv key address topic block
              (logs_window_end block endblock)
              (tr @ [ConsoleLog (Processing block (logs_window_end block endblock))])
            = Some (q, tr2)"
        and r: "(case q of
                   Inl x \<Rightarrow> Some (Inl x, tr2)
                 | Inr data \<Rightarrow>
                     (case spread data of
                        Inl x \<Rightarrow> Some (Inl x, tr2)
                      | Inr items \<Rightarrow>
                          f srv key address topic endblock (js_add block 1000) (result @ items) tr2))
                = Some y"
        by (auto simp: Let_def logs_window_end_def split: Option.bind_split_asm)
      from logs_returns_value [OF c] obtain data where q: "q = Inr data" by auto
      show ?thesis
      proof (cases "spread data")
        case (Inl z)
        with r q x have "x = z" by auto
        with Inl show ?thesis by (simp add: spread_Inl)
      next
        case (Inr items)
        with r q have "f srv key address topic endblock (js_add block 1000) (result @ items) tr2 = Some y"
          by simp
        from prems(1) [OF this] x show ?thesis by simp
      qed
    qed
  qed
  done

lemma logs_loop_stuck:
  assumes "block \<le> endblock" and "js_add block 1000 = block"
    and "\<And>a b h y. api_getLogsByAddressTopic srv key address topic a b h = Some y
           \<Longrightarrow> \<exists>items. fst y = Inr (JArr items)"
  shows "logs_loop srv key address topic endblock block result tr = None"
proof (rule ccontr)
  assume "logs_loop srv key address topic endblock block result tr \<noteq> None"
  then obtain y where y: "logs_loop srv key address topic endblock block result tr = Some y"
    by auto
  have "(srv, key, address, topic, endblock, block) \<noteq> (srv, key, address, topic, endblock, block)"
    apply (rule logs_loop.raw_induct
        [where P = "\<lambda>srv' key' address' topic' endblock' block' result' tr' y.
            (srv', key', address', topic', endblock', block') \<noteq> (srv, key, address, topic, endblock, block)",
         OF _ y])
    subgoal premises prems for f srv' key' address' topic' endblock' block' result' tr' y'
    proof
      assume "(srv', key', address', topic', endblock', block') = (srv, key, address, topic, endblock, block)"
      then have eq: "srv' = srv" "key' = key" "address' = address" "topic' = topic"
        "endblock' = endblock"
        "block' = block"
        by simp_all
      note body = prems(2) [unfolded eq]
      from body assms(1) obtain q tr2 where
        c: "api_getLogsByAddressTopic srv key address topic block
              (logs_window_end block endblock)
              (tr' @ [ConsoleLog (Processing block (logs_window_end block endblock))])
            = Some (q, tr2)"
        and r: "(case q of
                   Inl x \<Rightarrow> Some (Inl x, tr2)
                 | Inr data \<Rightarrow>
                     (case spread data of
                        Inl x \<Rightarrow> Some (Inl x, tr2)
                      | Inr items \<Rightarrow>
                          f srv key address topic endblock (js_add block 1000) (result' @ items) tr2))
                = Some y'"
        by (auto simp: Let_def logs_window_end_def split: Option.bind_split_asm)
      from assms(3) [OF c] obtain items where q: "q = Inr (JArr items)" by auto
      from r q assms(2)
      have "f srv key address topic endblock block (result' @ items) tr2 = Some y'"
        by simp
      from prems(1) [OF this] show False by simp
    qed
    done
  then show False by simp
qed

section \<open>The windows of a range\<close>

lemma spec_windows_step:
  "0 < w \<Longrightarrow> s \<le> e \<Longrightarrow>
     spec_windows w s e = (s, min (s + w - 1) e) # spec_windows w (s + w) e"
  by (subst spec_windows.simps) simp

lemma spec_windows_empty: "\<not> (0 < w \<and> s \<le> e) \<Longrightarrow> spec_windows w s e = []"
  by (subst spec_windows.simps) simp

lemma spec_windows_bounds:
  "(a, b) \<in> set (spec_windows w s e) \<Longrightarrow> s \<le> a \<and> a \<le> b \<and> b \<le> e \<and> b < a + w"
proof (induction w s e rule: spec_windows.induct)
  case (1 w s e)
  show ?case
  proof (cases "0 < w \<and> s \<le> e")
    case True
    with 1 show ?thesis by (auto simp: spec_windows_step)
  next
    case False
    with 1 show ?thesis by (simp add: spec_windows_empty)
  qed
qed

lemma spec_windows_sorted: "sorted_wrt (\<lambda>p q. snd p < fst q) (spec_windows w s e)"
proof (induction w s e rule: spec_windows.induct)
  case (1 w s e)
  show ?case
  proof (cases "0 < w \<and> s \<le> e")
    case True
    have "min (s + w - 1) e < fst q" if "q \<in> set (spec_windows w (s + w) e)" for q
      using spec_windows_bounds [of "fst q" "snd q" w "s + w" e] that by simp
    with True 1 show ?thesis by (simp add: spec_windows_step)
  next
    case False
    then show ?thesis by (simp add: spec_windows_empty)
  qed
qed

lemma spec_windows_union:
  "0 < w \<Longrightarrow> (\<Union>(a, b) \<in> set (spec_windows w s e). {a..b}) = {s..e}"
proof (induction w s e rule: spec_windows.induct)
  case (1 w s e)
  show ?case
  proof (cases "s \<le> e")
    case True
    with 1 have "(\<Union>(a, b) \<in> set (spec_windows w (s + w) e). {a..b}) = {s + w..e}" by simp
    moreover have "{s..min (s + w - 1) e} \<union> {s + w..e} = {s..e}"
      using True 1(2) by auto
    ultimately show ?thesis using True 1(2) by (simp add: spec_windows_step)
  next
    case False
    then show ?thesis by (simp add: spec_windows_empty)
  qed
qed

lemma spec_windows_length:
  "0 < w \<Longrightarrow> length (spec_windows w s e) = nat \<lceil>real_of_int (e - s + 1) / real_of_int w\<rceil>"
proof (induction w s e rule: spec_windows.induct)
  case (1 w s e)
  show ?case
  proof (cases "s \<le> e")
    case True
    let ?c = "\<lceil>real_of_int (e - s + 1) / real_of_int w\<rceil>"
    have "real_of_int (e - (s + w) + 1) / real_of_int w = real_of_int (e - s + 1) / real_of_int w - 1"
      using 1(2) by (simp add: field_simps)
    then have "\<lceil>real_of_int (e - (s + w) + 1) / real_of_int w\<rceil> = ?c - 1"
      by simp
    moreover have "0 < real_of_int (e - s + 1) / real_of_int w"
      using True 1(2) by simp
    then have "1 \<le> ?c" by linarith
    ultimately show ?thesis
      using True 1 by (simp add: spec_windows_step nat_diff_distrib' Suc_nat_eq_nat_zadd1)
  next
    case False
    then have "real_of_int (e - s + 1) / real_of_int w \<le> 0"
      using 1(2) by (simp add: divide_le_0_iff)
    then have "\<lceil>real_of_int (e - s + 1) / real_of_int w\<rceil> \<le> 0" by (simp add: ceiling_le_iff)
    with False show ?thesis by (simp add: spec_windows_empty)
  qed
qed

lemma spec_windows_nth:
  "k < length (spec_windows w s e) \<Longrightarrow>
     spec_windows w s e ! k = (s + int k * w, min (s + int k * w + w - 1) e)"
proof (induction k arbitrary: s)
  case 0
  then have "0 < w \<and> s \<le> e" using spec_windows_empty [of w s e] by fastforce
  then show ?case by (simp add: spec_windows_step)
next
  case (Suc k)
  then have c: "0 < w \<and> s \<le> e" using spec_windows_empty [of w s e] by fastforce
  with Suc.prems have "k < length (spec_windows w (s + w) e)" by (simp add: spec_windows_step)
  from Suc.IH [OF this] c show ?case by (simp add: spec_windows_step algebra_simps)
qed

lemma spec_windows_contiguous:
  assumes "Suc k < length (spec_windows w s e)"
  shows "fst (spec_windows w s e ! Suc k) = snd (spec_windows w s e ! k) + 1"
proof -
  have "spec_windows w s e ! Suc k \<in> set (spec_windows w s e)" using assms by simp
  then have "fst (spec_windows w s e ! Suc k) \<le> e"
    using spec_windows_bounds [of "fst (spec_windows w s e ! Suc k)" "snd (spec_windows w s e ! Suc k)" w s e]
    by simp
  then have "s + int (Suc k) * w \<le> e" using assms by (simp add: spec_windows_nth)
  then have "min (s + int k * w + w - 1) e = s + int k * w + w - 1" by (simp add: algebra_simps)
  with assms show ?thesis by (simp add: spec_windows_nth algebra_simps)
qed

lemma spec_windows_last: "0 < w \<Longrightarrow> s \<le> e \<Longrightarrow> snd (last (spec_windows w s e)) = e"
proof (induction w s e rule: spec_windows.induct)
  case (1 w s e)
  show ?case
  proof (cases "s + w \<le> e")
    case True
    with 1 have "snd (last (spec_windows w (s + w) e)) = e" by simp
    moreover from True 1(2) have "spec_windows w (s + w) e \<noteq> []" by (simp add: spec_windows_step)
    ultimately show ?thesis using 1(2,3) by (simp add: spec_windows_step)
  next
    case False
    then have "spec_windows w (s + w) e = []" by (simp add: spec_windows_empty)
    with False 1(2,3) show ?thesis by (simp add: spec_windows_step)
  qed
qed

lemma spec_windows_first: "0 < w \<Longrightarrow> s \<le> e \<Longrightarrow> fst (hd (spec_windows w s e)) = s"
  by (simp add: spec_windows_step)

section \<open>The service loops run the client over the windows\<close>

lemma internal_loop_run:
  assumes "safe_range b e"
  shows "internal_loop srv key address e b result tr =
     run_windows (api_getInternalTransactionsByAddress srv key address) (spec_windows 10000 b e) result tr"
  using assms
proof (induction "nat (e - b + 1)" arbitrary: b result tr rule: less_induct)
  case less
  show ?case
  proof (cases "b \<le> e")
    case True
    have IH: "internal_loop srv key address e (b + 10000) result' tr' =
        run_windows (api_getInternalTransactionsByAddress srv key address)
          (spec_windows 10000 (b + 10000) e) result' tr'" for result' tr'
      by (rule less.hyps) (use True less.prems in \<open>simp_all add: safe_range_next\<close>)
    have w: "spec_windows 10000 b e = (b, min (b + 9999) e) # spec_windows 10000 (b + 10000) e"
      using spec_windows_step [of 10000 b e] True by (simp add: add.commute)
    have a: "js_add b 10000 = b + 10000" "internal_window_end b e = min (b + 9999) e"
      using less.prems True by (simp_all add: js_add_safe internal_window_end_safe)
    show ?thesis
      by (simp only: internal_loop_step [OF True] a w run_windows.simps IH)
  next
    case False
    then show ?thesis by (simp add: internal_loop_done spec_windows_empty)
  qed
qed

lemma logs_loop_run:
  assumes "safe_range b e"
  shows "logs_loop srv key address topic e b result tr =
     run_windows (api_getLogsByAddressTopic srv key address topic) (spec_windows 1000 b e) result tr"
  using assms
proof (induction "nat (e - b + 1)" arbitrary: b result tr rule: less_induct)
  case less
  show ?case
  proof (cases "b \<le> e")
    case True
    have IH: "logs_loop srv key address topic e (b + 1000) result' tr' =
        run_windows (api_getLogsByAddressTopic srv key address topic)
          (spec_windows 1000 (b + 1000) e) result' tr'" for result' tr'
      by (rule less.hyps) (use True less.prems in \<open>simp_all add: safe_range_next\<close>)
    have w: "spec_windows 1000 b e = (b, min (b + 999) e) # spec_windows 1000 (b + 1000) e"
      using spec_windows_step [of 1000 b e] True by (simp add: add.commute)
    have a: "js_add b 1000 = b + 1000" "logs_window_end b e = min (b + 999) e"
      using less.prems True by (simp_all add: js_add_safe logs_window_end_safe)
    show ?thesis
      by (simp only: logs_loop_step [OF True] a w run_windows.simps IH)
  next
    case False
    then show ?thesis by (simp add: logs_loop_done spec_windows_empty)
  qed
qed

text \<open>A client that answers each window with an array, whatever the history: the
  loop returns the accumulator followed by the arrays of the windows, in their order.\<close>

lemma run_windows_concat:
  assumes "\<And>a b h. \<exists>h'. call a b h = Some (Inr (JArr (f a b)), h')"
  shows "\<exists>tr'. run_windows call ws result tr =
           Some (Inr (result @ concat (map (\<lambda>(a, b). f a b) ws)), tr')"
proof (induction ws arbitrary: result tr)
  case Nil
  show ?case by simp
next
  case (Cons p ws)
  obtain a b where p: "p = (a, b)" by (cases p)
  from assms obtain h' where
    "call a b (tr @ [ConsoleLog (Processing a b)]) = Some (Inr (JArr (f a b)), h')"
    by blast
  with Cons [of "result @ f a b" h'] p show ?case by simp
qed

text \<open>What a run of the loop adds to the windows of the trace: all of them when it
  ends normally, the first few when something was thrown.\<close>

lemma run_windows_trace:
  assumes "\<And>a b h y. call a b h = Some y \<Longrightarrow> windows_of (snd y) = windows_of h"
    and "run_windows call ws result tr = Some (r, tr')"
  shows "\<exists>n. windows_of tr' = windows_of tr @ take n ws \<and> (\<forall>out. r = Inr out \<longrightarrow> n = length ws)
           \<and> (ws \<noteq> [] \<longrightarrow> 0 < n)"
  using assms(2)
proof (induction ws arbitrary: result tr)
  case Nil
  then show ?case by auto
next
  case (Cons p ws)
  obtain a b where p: "p = (a, b)" by (cases p)
  from Cons.prems p obtain q tr2 where
    c: "call a b (tr @ [ConsoleLog (Processing a b)]) = Some (q, tr2)"
    by (cases "call a b (tr @ [ConsoleLog (Processing a b)])") auto
  from assms(1) [OF c] have w: "windows_of tr2 = windows_of tr @ [(a, b)]"
    by (simp add: windows_of_append)
  show ?case
  proof (cases q)
    case (Inl x)
    with Cons.prems p c have "r = Inl x" "tr' = tr2" by simp_all
    with w p have "windows_of tr' = windows_of tr @ take 1 (p # ws) \<and>
        (\<forall>out. r = Inr out \<longrightarrow> (1::nat) = length (p # ws)) \<and> (p # ws \<noteq> [] \<longrightarrow> 0 < (1::nat))"
      by simp
    then show ?thesis by blast
  next
    case (Inr data)
    show ?thesis
    proof (cases "spread data")
      case (Inl x)
      with Cons.prems p c Inr have "r = Inl x" "tr' = tr2" by simp_all
      with w p have "windows_of tr' = windows_of tr @ take 1 (p # ws) \<and>
          (\<forall>out. r = Inr out \<longrightarrow> (1::nat) = length (p # ws)) \<and> (p # ws \<noteq> [] \<longrightarrow> 0 < (1::nat))"
        by simp
      then show ?thesis by blast
    next
      case items: (Inr items)
      with Cons.prems p c Inr have "run_windows call ws (result @ items) tr2 = Some (r, tr')"
        by simp
      from Cons.IH [OF this] obtain n where
        "windows_of tr' = windows_of tr2 @ take n ws" "\<forall>out. r = Inr out \<longrightarrow> n = length ws"
        by blast
      with w p have "windows_of tr' = windows_of tr @ take (Suc n) (p # ws) \<and>
          (\<forall>out. r = Inr out \<longrightarrow> Suc n = length (p # ws)) \<and> (p # ws \<noteq> [] \<longrightarrow> 0 < Suc n)"
        by simp
      then show ?thesis by blast
    qed
  qed
qed

lemma internal_loop_trace:
  assumes "safe_range s e"
    and "internal_loop srv key address e s result tr = Some (r, tr')"
  shows "\<exists>n. windows_of tr' = windows_of tr @ take n (spec_windows 10000 s e) \<and>
             (\<forall>out. r = Inr out \<longrightarrow> n = length (spec_windows 10000 s e)) \<and>
             (spec_windows 10000 s e \<noteq> [] \<longrightarrow> 0 < n)"
  using run_windows_trace [where call = "api_getInternalTransactionsByAddress srv key address",
      OF internal_windows_of assms(2) [unfolded internal_loop_run [OF assms(1)]]] .

lemma logs_loop_trace:
  assumes "safe_range s e"
    and "logs_loop srv key address topic e s result tr = Some (r, tr')"
  shows "\<exists>n. windows_of tr' = windows_of tr @ take n (spec_windows 1000 s e) \<and>
             (\<forall>out. r = Inr out \<longrightarrow> n = length (spec_windows 1000 s e)) \<and>
             (spec_windows 1000 s e \<noteq> [] \<longrightarrow> 0 < n)"
  using run_windows_trace [where call = "api_getLogsByAddressTopic srv key address topic",
      OF logs_windows_of assms(2) [unfolded logs_loop_run [OF assms(1)]]] .

lemma internal_service_trace:
  assumes "safe_range s e"
    and "service_getInternalTransactionsByAddress srv key address s e tr = Some (out, tr')"
  shows "\<exists>n. windows_of tr' = windows_of tr @ take n (spec_windows 10000 s e) \<and>
             (s \<le> e \<longrightarrow> 0 < n)"
proof -
  from assms(2) obtain r tr2 where l: "internal_loop srv key address e s [] tr = Some (r, tr2)"
    and t: "windows_of tr' = windows_of tr2"
    by (auto simp: service_getInternalTransactionsByAddress_def windows_of_append
        split: option.splits sum.splits)
  have "s \<le> e \<longrightarrow> spec_windows 10000 s e \<noteq> []" by (simp add: spec_windows_step)
  with internal_loop_trace [OF assms(1) l] t show ?thesis by auto
qed

lemma logs_service_trace:
  assumes "safe_range s e"
    and "service_getLogsByAddressTopic srv key address topic s e tr = Some (out, tr')"
  shows "\<exists>n. windows_of tr' = windows_of tr @ take n (spec_windows 1000 s e) \<and>
             (s \<le> e \<longrightarrow> 0 < n)"
proof -
  from assms(2) obtain r tr2 where l: "logs_loop srv key address topic e s [] tr = Some (r, tr2)"
    and t: "windows_of tr' = windows_of tr2"
    by (auto simp: service_getLogsByAddressTopic_def windows_of_append
        split: option.splits sum.splits)
  have "s \<le> e \<longrightarrow> spec_windows 1000 s e \<noteq> []" by (simp add: spec_windows_step)
  with logs_loop_trace [OF assms(1) l] t show ?thesis by auto
qed

lemma internal_settled_once:
  assumes "\<not> notok_reply (srv (tr @ [Request (internal_request key address s e)]))"
  shows "\<exists>v tr'. api_getInternalTransactionsByAddress srv key address s e tr = Some (Inr v, tr') \<and>
           filter is_request tr' = filter is_request tr @ [Request (internal_request key address s e)]"
proof (cases "srv (tr @ [Request (internal_request key address s e)])")
  case (Rejected x)
  then show ?thesis by (simp add: internal_rejected is_request_def)
next
  case (Response d)
  with assms have "is_retry d \<noteq> Inr True" by (simp add: is_retry_notok)
  with Response show ?thesis
    by (subst internal_unfold) (auto simp: is_request_def split: sum.splits)
qed

lemma logs_settled_once:
  assumes "\<not> notok_reply (srv (tr @ [Request (logs_request key address topic s e)]))"
  shows "\<exists>v tr'. api_getLogsByAddressTopic srv key address topic s e tr = Some (Inr v, tr') \<and>
           filter is_request tr' = filter is_request tr @ [Request (logs_request key address topic s e)]"
proof (cases "srv (tr @ [Request (logs_request key address topic s e)])")
  case (Rejected x)
  then show ?thesis by (simp add: logs_rejected is_request_def)
next
  case (Response d)
  with assms have "is_retry d \<noteq> Inr True" by (simp add: is_retry_notok)
  with Response show ?thesis
    by (subst logs_unfold) (auto simp: is_request_def split: sum.splits)
qed

lemma internal_service_single:
  assumes "safe_range s s"
  shows "service_getInternalTransactionsByAddress srv key address s s tr =
     Option.bind
       (api_getInternalTransactionsByAddress srv key address s s (tr @ [ConsoleLog (Processing s s)]))
       (\<lambda>(r, tr2). case r of
          Inl x \<Rightarrow> Some ([], tr2 @ [ConsoleWarn (CouldNotFetchInternal address x)])
        | Inr data \<Rightarrow>
            (case spread data of
               Inl x \<Rightarrow> Some ([], tr2 @ [ConsoleWarn (CouldNotFetchInternal address x)])
             | Inr items \<Rightarrow> Some (items, tr2)))"
  using assms
  by (simp add: service_getInternalTransactionsByAddress_def internal_loop_step internal_loop_done
      js_add_safe internal_window_end_safe split: option.splits sum.splits)

lemma logs_service_single:
  assumes "safe_range s s"
  shows "service_getLogsByAddressTopic srv key address topic s s tr =
     Option.bind
       (api_getLogsByAddressTopic srv key address topic s s (tr @ [ConsoleLog (Processing s s)]))
       (\<lambda>(r, tr2). case r of
          Inl x \<Rightarrow> Some ([], tr2 @ [ConsoleWarn (CouldNotFetchLogs address x)])
        | Inr data \<Rightarrow>
            (case spread data of
               Inl x \<Rightarrow> Some ([], tr2 @ [ConsoleWarn (CouldNotFetchLogs address x)])
             | Inr items \<Rightarrow> Some (items, tr2)))"
  using assms
  by (simp add: service_getLogsByAddressTopic_def logs_loop_step logs_loop_done
      js_add_safe logs_window_end_safe split: option.splits sum.splits)

section \<open>A request that fails in transport\<close>

lemma internal_text_body:
  assumes "srv (tr @ [Request (internal_request key address s e)]) = Response (JStr body)"
  shows "api_getInternalTransactionsByAddress srv key address s e tr =
           Some (Inr (JArr []), tr @ [Request (internal_request key address s e)])"
  by (subst internal_unfold) (simp add: assms is_retry_def is_success_def strict_eq_def)

lemma logs_text_body:
  assumes "srv (tr @ [Request (logs_request key address topic s e)]) = Response (JStr body)"
  shows "api_getLogsByAddressTopic srv key address topic s e tr =
           Some (Inr (JArr []), tr @ [Request (logs_request key address topic s e)])"
  by (subst logs_unfold) (simp add: assms is_retry_def is_success_def strict_eq_def)

text \<open>
  C5, as the code has it. When \<^verbatim>\<open>axios.get\<close> rejects (a network error, a status
  outside 2xx), each client operation catches the error, writes one warning that names
  the address and the error, and returns the empty array. A response body that is no
  JSON is not a rejection: \<^verbatim>\<open>axios\<close>, as the source configures it, hands the body
  over as a string, and the operation returns the empty array by its last
  \<^verbatim>\<open>return\<close>, with no warning. In both cases nothing is thrown to the service,
  whose loop goes on with the next window, its accumulator unchanged.
\<close>

theorem transport_fault_is_absorbed:
  "(srv (tr @ [Request (internal_request key address s e)]) = Rejected x
    \<longrightarrow> api_getInternalTransactionsByAddress srv key address s e tr =
          Some (Inr (JArr []),
                tr @ [Request (internal_request key address s e),
                      ConsoleWarn (CouldNotFetchInternal address x)]))
   \<and> (srv (tr @ [Request (logs_request key address topic s e)]) = Rejected x
      \<longrightarrow> api_getLogsByAddressTopic srv key address topic s e tr =
            Some (Inr (JArr []),
                  tr @ [Request (logs_request key address topic s e),
                        ConsoleWarn (CouldNotFetchLogs address x)]))
   \<and> (srv (tr @ [Request (internal_request key address s e)]) = Response (JStr body)
      \<longrightarrow> api_getInternalTransactionsByAddress srv key address s e tr =
            Some (Inr (JArr []), tr @ [Request (internal_request key address s e)]))
   \<and> (srv (tr @ [Request (logs_request key address topic s e)]) = Response (JStr body)
      \<longrightarrow> api_getLogsByAddressTopic srv key address topic s e tr =
            Some (Inr (JArr []), tr @ [Request (logs_request key address topic s e)]))
   \<and> (block \<le> endblock \<and>
      srv (tr @ [ConsoleLog (Processing block (internal_window_end block endblock)),
                 Request (internal_request key address block (internal_window_end block endblock))])
        = Rejected x
      \<longrightarrow> internal_loop srv key address endblock block result tr =
            internal_loop srv key address endblock (js_add block 10000) result
              (tr @ [ConsoleLog (Processing block (internal_window_end block endblock)),
                     Request (internal_request key address block (internal_window_end block endblock)),
                     ConsoleWarn (CouldNotFetchInternal address x)]))
   \<and> (block \<le> endblock \<and>
      srv (tr @ [ConsoleLog (Processing block (logs_window_end block endblock)),
                 Request (logs_request key address topic block (logs_window_end block endblock))])
        = Rejected x
      \<longrightarrow> logs_loop srv key address topic endblock block result tr =
            logs_loop srv key address topic endblock (js_add block 1000) result
              (tr @ [ConsoleLog (Processing block (logs_window_end block endblock)),
                     Request (logs_request key address topic block (logs_window_end block endblock)),
                     ConsoleWarn (CouldNotFetchLogs address x)]))
   \<and> (block \<le> endblock \<and>
      srv (tr @ [ConsoleLog (Processing block (internal_window_end block endblock)),
                 Request (internal_request key address block (internal_window_end block endblock))])
        = Response (JStr body)
      \<longrightarrow> internal_loop srv key address endblock block result tr =
            internal_loop srv key address endblock (js_add block 10000) result
              (tr @ [ConsoleLog (Processing block (internal_window_end block endblock)),
                     Request (internal_request key address block (internal_window_end block endblock))]))
   \<and> (block \<le> endblock \<and>
      srv (tr @ [ConsoleLog (Processing block (logs_window_end block endblock)),
                 Request (logs_request key address topic block (logs_window_end block endblock))])
        = Response (JStr body)
      \<longrightarrow> logs_loop srv key address topic endblock block result tr =
            logs_loop srv key address topic endblock (js_add block 1000) result
              (tr @ [ConsoleLog (Processing block (logs_window_end block endblock)),
                     Request (logs_request key address topic block (logs_window_end block endblock))]))"
proof (intro conjI impI)
  assume "srv (tr @ [Request (internal_request key address s e)]) = Rejected x"
  then show "api_getInternalTransactionsByAddress srv key address s e tr =
          Some (Inr (JArr []),
                tr @ [Request (internal_request key address s e),
                      ConsoleWarn (CouldNotFetchInternal address x)])"
    by (rule internal_rejected)
next
  assume "srv (tr @ [Request (logs_request key address topic s e)]) = Rejected x"
  then show "api_getLogsByAddressTopic srv key address topic s e tr =
            Some (Inr (JArr []),
                  tr @ [Request (logs_request key address topic s e),
                        ConsoleWarn (CouldNotFetchLogs address x)])"
    by (rule logs_rejected)
next
  assume "srv (tr @ [Request (internal_request key address s e)]) = Response (JStr body)"
  then show "api_getInternalTransactionsByAddress srv key address s e tr =
            Some (Inr (JArr []), tr @ [Request (internal_request key address s e)])"
    by (rule internal_text_body)
next
  assume "srv (tr @ [Request (logs_request key address topic s e)]) = Response (JStr body)"
  then show "api_getLogsByAddressTopic srv key address topic s e tr =
            Some (Inr (JArr []), tr @ [Request (logs_request key address topic s e)])"
    by (rule logs_text_body)
next
  let ?end = "internal_window_end block endblock"
  assume a: "block \<le> endblock \<and>
      srv (tr @ [ConsoleLog (Processing block ?end),
                 Request (internal_request key address block ?end)]) = Rejected x"
  then have "srv ((tr @ [ConsoleLog (Processing block ?end)])
                  @ [Request (internal_request key address block ?end)]) = Rejected x"
    by simp
  from internal_rejected [where srv = srv, OF this] a
  show "internal_loop srv key address endblock block result tr =
            internal_loop srv key address endblock (js_add block 10000) result
              (tr @ [ConsoleLog (Processing block ?end),
                     Request (internal_request key address block ?end),
                     ConsoleWarn (CouldNotFetchInternal address x)])"
    by (simp add: internal_loop_step)
next
  let ?end = "logs_window_end block endblock"
  assume a: "block \<le> endblock \<and>
      srv (tr @ [ConsoleLog (Processing block ?end),
                 Request (logs_request key address topic block ?end)]) = Rejected x"
  then have "srv ((tr @ [ConsoleLog (Processing block ?end)])
                  @ [Request (logs_request key address topic block ?end)]) = Rejected x"
    by simp
  from logs_rejected [where srv = srv, OF this] a
  show "logs_loop srv key address topic endblock block result tr =
            logs_loop srv key address topic endblock (js_add block 1000) result
              (tr @ [ConsoleLog (Processing block ?end),
                     Request (logs_request key address topic block ?end),
                     ConsoleWarn (CouldNotFetchLogs address x)])"
    by (simp add: logs_loop_step)
next
  let ?end = "internal_window_end block endblock"
  assume a: "block \<le> endblock \<and>
      srv (tr @ [ConsoleLog (Processing block ?end),
                 Request (internal_request key address block ?end)]) = Response (JStr body)"
  then have "srv ((tr @ [ConsoleLog (Processing block ?end)])
                  @ [Request (internal_request key address block ?end)]) = Response (JStr body)"
    by simp
  from internal_text_body [where srv = srv, OF this] a
  show "internal_loop srv key address endblock block result tr =
            internal_loop srv key address endblock (js_add block 10000) result
              (tr @ [ConsoleLog (Processing block ?end),
                     Request (internal_request key address block ?end)])"
    by (simp add: internal_loop_step)
next
  let ?end = "logs_window_end block endblock"
  assume a: "block \<le> endblock \<and>
      srv (tr @ [ConsoleLog (Processing block ?end),
                 Request (logs_request key address topic block ?end)]) = Response (JStr body)"
  then have "srv ((tr @ [ConsoleLog (Processing block ?end)])
                  @ [Request (logs_request key address topic block ?end)]) = Response (JStr body)"
    by simp
  from logs_text_body [where srv = srv, OF this] a
  show "logs_loop srv key address topic endblock block result tr =
            logs_loop srv key address topic endblock (js_add block 1000) result
              (tr @ [ConsoleLog (Processing block ?end),
                     Request (logs_request key address topic block ?end)])"
    by (simp add: logs_loop_step)
qed

text \<open>A network that is down: each operation returns the empty array with its
  warning, and the loop over \<open>[0, 19999]\<close> stands at block 10000 (at 1000 for logs)
  after the first window, with nothing accumulated.\<close>

theorem transport_fault_is_absorbed_witness:
  "api_getInternalTransactionsByAddress (\<lambda>h. Rejected (AxiosError ''ECONNRESET'')) ''key'' ''0xa4'' 0 9999 [] =
     Some (Inr (JArr []),
           [Request (internal_request ''key'' ''0xa4'' 0 9999),
            ConsoleWarn (CouldNotFetchInternal ''0xa4'' (AxiosError ''ECONNRESET''))])
   \<and> api_getLogsByAddressTopic (\<lambda>h. Rejected (AxiosError ''ECONNRESET'')) ''key'' ''0xa4'' ''0xddf2'' 0 9999 [] =
     Some (Inr (JArr []),
           [Request (logs_request ''key'' ''0xa4'' ''0xddf2'' 0 9999),
            ConsoleWarn (CouldNotFetchLogs ''0xa4'' (AxiosError ''ECONNRESET''))])
   \<and> internal_loop (\<lambda>h. Rejected (AxiosError ''ECONNRESET'')) ''key'' ''0xa4'' 19999 0 [] [] =
     internal_loop (\<lambda>h. Rejected (AxiosError ''ECONNRESET'')) ''key'' ''0xa4'' 19999 10000 []
       [ConsoleLog (Processing 0 9999),
        Request (internal_request ''key'' ''0xa4'' 0 9999),
        ConsoleWarn (CouldNotFetchInternal ''0xa4'' (AxiosError ''ECONNRESET''))]
   \<and> logs_loop (\<lambda>h. Rejected (AxiosError ''ECONNRESET'')) ''key'' ''0xa4'' ''0xddf2'' 19999 0 [] [] =
     logs_loop (\<lambda>h. Rejected (AxiosError ''ECONNRESET'')) ''key'' ''0xa4'' ''0xddf2'' 19999 1000 []
       [ConsoleLog (Processing 0 999),
        Request (logs_request ''key'' ''0xa4'' ''0xddf2'' 0 999),
        ConsoleWarn (CouldNotFetchLogs ''0xa4'' (AxiosError ''ECONNRESET''))]"
proof -
  have sr: "safe_range 0 19999" by (simp add: safe_range_def)
  have n: "js_add 0 10000 = 10000" "js_add 0 1000 = 1000"
    "internal_window_end 0 19999 = 9999" "logs_window_end 0 19999 = 999"
    using sr by (simp_all add: js_add_safe internal_window_end_safe logs_window_end_safe)
  note t = transport_fault_is_absorbed
    [where srv = "\<lambda>h. Rejected (AxiosError ''ECONNRESET'')" and x = "AxiosError ''ECONNRESET''"
       and tr = "[]" and key = "''key''" and address = "''0xa4''" and topic = "''0xddf2''"
       and s = 0 and e = 9999 and block = 0 and endblock = 19999 and result = "[]"]
  show ?thesis
    using t [THEN conjunct1] t [THEN conjunct2, THEN conjunct1]
      t [THEN conjunct2, THEN conjunct2, THEN conjunct2, THEN conjunct2, THEN conjunct1]
      t [THEN conjunct2, THEN conjunct2, THEN conjunct2, THEN conjunct2, THEN conjunct2,
         THEN conjunct1]
    by (simp add: n)
qed

text \<open>
  The claim as stated fails on a body that is no JSON: the operations return the
  empty array, and the trace holds the request and no warning.
\<close>

theorem text_body_no_warning_counterexample:
  "api_getInternalTransactionsByAddress (\<lambda>h. Response (JStr ''<html>502 Bad Gateway</html>''))
     ''key'' ''0xa4'' 0 9999 [] =
     Some (Inr (JArr []), [Request (internal_request ''key'' ''0xa4'' 0 9999)])
   \<and> api_getLogsByAddressTopic (\<lambda>h. Response (JStr ''<html>502 Bad Gateway</html>''))
     ''key'' ''0xa4'' ''0xddf2'' 0 999 [] =
     Some (Inr (JArr []), [Request (logs_request ''key'' ''0xa4'' ''0xddf2'' 0 999)])
   \<and> filter is_warning [Request (internal_request ''key'' ''0xa4'' 0 9999)] = []
   \<and> filter is_warning [Request (logs_request ''key'' ''0xa4'' ''0xddf2'' 0 999)] = []"
  by (simp add: internal_text_body logs_text_body is_warning_def)

lemma get_prop_total: "get_prop d k = Inr v \<Longrightarrow> \<exists>w. get_prop d k' = Inr w"
  by (cases d) (auto split: option.splits)

text \<open>
  The classifications that the \<^verbatim>\<open>catch\<close> absorbs, or that fall through to the
  final \<^verbatim>\<open>return []\<close>.
\<close>

lemma absorbed_classification:
  assumes "d = JNull \<or> d = JUndefined \<or>
       (get_prop d ''status'' = Inr (JStr ''0'') \<and> (\<forall>m. get_prop d ''message'' \<noteq> Inr (JStr m)))"
  shows "is_retry d = Inl TypeError \<or> (is_retry d = Inr False \<and> is_success d = Inr False)"
proof -
  consider "d = JNull" | "d = JUndefined"
    | "get_prop d ''status'' = Inr (JStr ''0'')" "\<forall>m. get_prop d ''message'' \<noteq> Inr (JStr m)"
    using assms by blast
  then show ?thesis
  proof cases
    case 1
    then show ?thesis by (simp add: is_retry_def)
  next
    case 2
    then show ?thesis by (simp add: is_retry_def)
  next
    case 3
    from 3(1) obtain m where m: "get_prop d ''message'' = Inr m"
      using get_prop_total by blast
    with 3(2) have "\<forall>t. m \<noteq> JStr t" by simp
    with 3(1) m show ?thesis
      by (cases m) (simp_all add: is_retry_def is_success_def strict_eq_def)
  qed
qed

section \<open>The client never throws\<close>

lemma is_success_object:
  assumes "is_success d = Inr True"
  obtains kvs where "d = JObj kvs" and "map_of kvs ''status'' = Some (JStr ''1'')"
  using assms
  by (cases d) (auto simp: is_success_def strict_eq_def split: option.splits)

text \<open>What a client operation returns is the empty array, or the \<^verbatim>\<open>result\<close> of a
  reply with status \<^verbatim>\<open>"1"\<close>, whatever that is.\<close>

lemma internal_returns_shape:
  assumes "api_getInternalTransactionsByAddress srv key address s e tr = Some y"
  shows "\<exists>v. fst y = Inr v \<and>
           (v = JArr [] \<or>
            (\<exists>h kvs. srv h = Response (JObj kvs) \<and> map_of kvs ''status'' = Some (JStr ''1'') \<and>
               v = (case map_of kvs ''result'' of None \<Rightarrow> JUndefined | Some u \<Rightarrow> u)))"
  apply (rule api_getInternalTransactionsByAddress.raw_induct
      [where P = "\<lambda>srv _ _ _ _ _ y. \<exists>v. fst y = Inr v \<and>
           (v = JArr [] \<or>
            (\<exists>h kvs. srv h = Response (JObj kvs) \<and> map_of kvs ''status'' = Some (JStr ''1'') \<and>
               v = (case map_of kvs ''result'' of None \<Rightarrow> JUndefined | Some u \<Rightarrow> u)))",
       OF _ assms])
  subgoal premises prems for f srv key address s e tr y
  proof (cases "srv (tr @ [Request (internal_request key address s e)])")
    case (Rejected x)
    with prems(2) show ?thesis by (auto simp: axios_get_def internal_catch_def)
  next
    case (Response d)
    show ?thesis
    proof (cases "is_retry d")
      case (Inl x)
      with prems(2) Response show ?thesis by (auto simp: axios_get_def internal_catch_def)
    next
      case (Inr retry)
      show ?thesis
      proof (cases retry)
        case True
        with prems(2) Response Inr obtain q tr2 where
          c: "f srv key address s e
                (sleep 1000 (tr @ [Request (internal_request key address s e), ConsoleLog WaitRetry]))
              = Some (q, tr2)"
          and r: "(case q of Inl x \<Rightarrow> internal_catch address x tr2 | Inr v \<Rightarrow> Some (Inr v, tr2)) = Some y"
          by (auto simp: axios_get_def split: Option.bind_split_asm)
        from prems(1) [OF c] obtain v where v: "q = Inr v"
          and sh: "v = JArr [] \<or>
            (\<exists>h kvs. srv h = Response (JObj kvs) \<and> map_of kvs ''status'' = Some (JStr ''1'') \<and>
               v = (case map_of kvs ''result'' of None \<Rightarrow> JUndefined | Some u \<Rightarrow> u))"
          by auto
        from r v have "fst y = Inr v" by auto
        with sh show ?thesis by blast
      next
        case False
        show ?thesis
        proof (cases "is_success d")
          case (Inl x)
          with prems(2) Response Inr False show ?thesis
            by (auto simp: axios_get_def internal_catch_def)
        next
          case success: (Inr success)
          show ?thesis
          proof (cases success)
            case True
            with success obtain kvs where d: "d = JObj kvs"
              and st: "map_of kvs ''status'' = Some (JStr ''1'')"
              by (auto elim: is_success_object)
            from prems(2) Response Inr False success True d
            have "y = (Inr (case map_of kvs ''result'' of None \<Rightarrow> JUndefined | Some u \<Rightarrow> u),
                       tr @ [Request (internal_request key address s e)])"
              by (auto simp: axios_get_def split: option.splits)
            with Response d st show ?thesis by auto
          next
            case no: False
            with prems(2) Response Inr False success show ?thesis
              by (auto simp: axios_get_def)
          qed
        qed
      qed
    qed
  qed
  done

lemma logs_returns_shape:
  assumes "api_getLogsByAddressTopic srv key address topic s e tr = Some y"
  shows "\<exists>v. fst y = Inr v \<and>
           (v = JArr [] \<or>
            (\<exists>h kvs. srv h = Response (JObj kvs) \<and> map_of kvs ''status'' = Some (JStr ''1'') \<and>
               v = (case map_of kvs ''result'' of None \<Rightarrow> JUndefined | Some u \<Rightarrow> u)))"
  apply (rule api_getLogsByAddressTopic.raw_induct
      [where P = "\<lambda>srv _ _ _ _ _ _ y. \<exists>v. fst y = Inr v \<and>
           (v = JArr [] \<or>
            (\<exists>h kvs. srv h = Response (JObj kvs) \<and> map_of kvs ''status'' = Some (JStr ''1'') \<and>
               v = (case map_of kvs ''result'' of None \<Rightarrow> JUndefined | Some u \<Rightarrow> u)))",
       OF _ assms])
  subgoal premises prems for f srv key address topic s e tr y
  proof (cases "srv (tr @ [Request (logs_request key address topic s e)])")
    case (Rejected x)
    with prems(2) show ?thesis by (auto simp: axios_get_def logs_catch_def)
  next
    case (Response d)
    show ?thesis
    proof (cases "is_retry d")
      case (Inl x)
      with prems(2) Response show ?thesis by (auto simp: axios_get_def logs_catch_def)
    next
      case (Inr retry)
      show ?thesis
      proof (cases retry)
        case True
        with prems(2) Response Inr obtain q tr2 where
          c: "f srv key address topic s e
                (sleep 1000 (tr @ [Request (logs_request key address topic s e), ConsoleLog WaitRetry]))
              = Some (q, tr2)"
          and r: "(case q of Inl x \<Rightarrow> logs_catch address x tr2 | Inr v \<Rightarrow> Some (Inr v, tr2)) = Some y"
          by (auto simp: axios_get_def split: Option.bind_split_asm)
        from prems(1) [OF c] obtain v where v: "q = Inr v"
          and sh: "v = JArr [] \<or>
            (\<exists>h kvs. srv h = Response (JObj kvs) \<and> map_of kvs ''status'' = Some (JStr ''1'') \<and>
               v = (case map_of kvs ''result'' of None \<Rightarrow> JUndefined | Some u \<Rightarrow> u))"
          by auto
        from r v have "fst y = Inr v" by auto
        with sh show ?thesis by blast
      next
        case False
        show ?thesis
        proof (cases "is_success d")
          case (Inl x)
          with prems(2) Response Inr False show ?thesis
            by (auto simp: axios_get_def logs_catch_def)
        next
          case success: (Inr success)
          show ?thesis
          proof (cases success)
            case True
            with success obtain kvs where d: "d = JObj kvs"
              and st: "map_of kvs ''status'' = Some (JStr ''1'')"
              by (auto elim: is_success_object)
            from prems(2) Response Inr False success True d
            have "y = (Inr (case map_of kvs ''result'' of None \<Rightarrow> JUndefined | Some u \<Rightarrow> u),
                       tr @ [Request (logs_request key address topic s e)])"
              by (auto simp: axios_get_def split: option.splits)
            with Response d st show ?thesis by auto
          next
            case no: False
            with prems(2) Response Inr False success show ?thesis
              by (auto simp: axios_get_def)
          qed
        qed
      qed
    qed
  qed
  done

text \<open>
  C8, as the code has it. Neither client operation ever rejects: whenever one
  returns, it returns a value and not an error, for every server and every history,
  and it does return, with the request sent, as soon as a reply is no transient
  failure. Every failure inside \<^verbatim>\<open>try\<close> ends in the empty array: a rejected request,
  response data that is \<^verbatim>\<open>null\<close> or \<^verbatim>\<open>undefined\<close>, and a response with status
  \<^verbatim>\<open>"0"\<close> whose message is missing or no string. The value returned is the empty
  array or the \<^verbatim>\<open>result\<close> of a reply with status \<^verbatim>\<open>"1"\<close> as it is, which need
  be no sequence. The caller's error branch stays reachable: when that result is not
  iterable the spread of the service throws, and this \<^verbatim>\<open>TypeError\<close> is all the
  loop of the service ever throws.
\<close>

theorem client_never_rejects:
  "(api_getInternalTransactionsByAddress srv key address s e tr = Some (r, tr')
      \<longrightarrow> (\<exists>v. r = Inr v \<and>
             (v = JArr [] \<or>
              (\<exists>h kvs. srv h = Response (JObj kvs) \<and> map_of kvs ''status'' = Some (JStr ''1'') \<and>
                 v = (case map_of kvs ''result'' of None \<Rightarrow> JUndefined | Some u \<Rightarrow> u)))))
   \<and> (api_getLogsByAddressTopic srv key address topic s e tr = Some (r, tr')
      \<longrightarrow> (\<exists>v. r = Inr v \<and>
             (v = JArr [] \<or>
              (\<exists>h kvs. srv h = Response (JObj kvs) \<and> map_of kvs ''status'' = Some (JStr ''1'') \<and>
                 v = (case map_of kvs ''result'' of None \<Rightarrow> JUndefined | Some u \<Rightarrow> u)))))
   \<and> (\<not> notok_reply (srv (tr @ [Request (internal_request key address s e)]))
      \<longrightarrow> (\<exists>v w. api_getInternalTransactionsByAddress srv key address s e tr =
                  Some (Inr v, tr @ Request (internal_request key address s e) # w)))
   \<and> (\<not> notok_reply (srv (tr @ [Request (logs_request key address topic s e)]))
      \<longrightarrow> (\<exists>v w. api_getLogsByAddressTopic srv key address topic s e tr =
                  Some (Inr v, tr @ Request (logs_request key address topic s e) # w)))
   \<and> (srv (tr @ [Request (internal_request key address s e)]) = Rejected x \<or>
      (srv (tr @ [Request (internal_request key address s e)]) = Response d \<and>
       (d = JNull \<or> d = JUndefined \<or>
        (get_prop d ''status'' = Inr (JStr ''0'') \<and> (\<forall>m. get_prop d ''message'' \<noteq> Inr (JStr m)))))
      \<longrightarrow> (\<exists>w. api_getInternalTransactionsByAddress srv key address s e tr =
                Some (Inr (JArr []), tr @ Request (internal_request key address s e) # w)))
   \<and> (srv (tr @ [Request (logs_request key address topic s e)]) = Rejected x \<or>
      (srv (tr @ [Request (logs_request key address topic s e)]) = Response d \<and>
       (d = JNull \<or> d = JUndefined \<or>
        (get_prop d ''status'' = Inr (JStr ''0'') \<and> (\<forall>m. get_prop d ''message'' \<noteq> Inr (JStr m)))))
      \<longrightarrow> (\<exists>w. api_getLogsByAddressTopic srv key address topic s e tr =
                Some (Inr (JArr []), tr @ Request (logs_request key address topic s e) # w)))
   \<and> (internal_loop srv key address endblock block result tr = Some (Inl x, tr')
      \<longrightarrow> x = TypeError)
   \<and> (logs_loop srv key address topic endblock block result tr = Some (Inl x, tr')
      \<longrightarrow> x = TypeError)"
proof (intro conjI impI)
  assume "api_getInternalTransactionsByAddress srv key address s e tr = Some (r, tr')"
  from internal_returns_shape [OF this]
  show "\<exists>v. r = Inr v \<and>
             (v = JArr [] \<or>
              (\<exists>h kvs. srv h = Response (JObj kvs) \<and> map_of kvs ''status'' = Some (JStr ''1'') \<and>
                 v = (case map_of kvs ''result'' of None \<Rightarrow> JUndefined | Some u \<Rightarrow> u)))"
    by simp
next
  assume "api_getLogsByAddressTopic srv key address topic s e tr = Some (r, tr')"
  from logs_returns_shape [OF this]
  show "\<exists>v. r = Inr v \<and>
             (v = JArr [] \<or>
              (\<exists>h kvs. srv h = Response (JObj kvs) \<and> map_of kvs ''status'' = Some (JStr ''1'') \<and>
                 v = (case map_of kvs ''result'' of None \<Rightarrow> JUndefined | Some u \<Rightarrow> u)))"
    by simp
next
  assume "\<not> notok_reply (srv (tr @ [Request (internal_request key address s e)]))"
  then show "\<exists>v w. api_getInternalTransactionsByAddress srv key address s e tr =
                  Some (Inr v, tr @ Request (internal_request key address s e) # w)"
    by (rule internal_settled)
next
  assume "\<not> notok_reply (srv (tr @ [Request (logs_request key address topic s e)]))"
  then show "\<exists>v w. api_getLogsByAddressTopic srv key address topic s e tr =
                  Some (Inr v, tr @ Request (logs_request key address topic s e) # w)"
    by (rule logs_settled)
next
  assume a: "srv (tr @ [Request (internal_request key address s e)]) = Rejected x \<or>
      (srv (tr @ [Request (internal_request key address s e)]) = Response d \<and>
       (d = JNull \<or> d = JUndefined \<or>
        (get_prop d ''status'' = Inr (JStr ''0'') \<and> (\<forall>m. get_prop d ''message'' \<noteq> Inr (JStr m)))))"
  show "\<exists>w. api_getInternalTransactionsByAddress srv key address s e tr =
                Some (Inr (JArr []), tr @ Request (internal_request key address s e) # w)"
  proof (cases "srv (tr @ [Request (internal_request key address s e)])")
    case (Rejected z)
    then show ?thesis by (simp add: internal_rejected)
  next
    case (Response d')
    with a have d: "d = JNull \<or> d = JUndefined \<or>
        (get_prop d ''status'' = Inr (JStr ''0'') \<and> (\<forall>m. get_prop d ''message'' \<noteq> Inr (JStr m)))"
      and "d' = d"
      by auto
    from absorbed_classification [OF d] Response \<open>d' = d\<close> show ?thesis
      by (subst internal_unfold) auto
  qed
next
  assume a: "srv (tr @ [Request (logs_request key address topic s e)]) = Rejected x \<or>
      (srv (tr @ [Request (logs_request key address topic s e)]) = Response d \<and>
       (d = JNull \<or> d = JUndefined \<or>
        (get_prop d ''status'' = Inr (JStr ''0'') \<and> (\<forall>m. get_prop d ''message'' \<noteq> Inr (JStr m)))))"
  show "\<exists>w. api_getLogsByAddressTopic srv key address topic s e tr =
                Some (Inr (JArr []), tr @ Request (logs_request key address topic s e) # w)"
  proof (cases "srv (tr @ [Request (logs_request key address topic s e)])")
    case (Rejected z)
    then show ?thesis by (simp add: logs_rejected)
  next
    case (Response d')
    with a have d: "d = JNull \<or> d = JUndefined \<or>
        (get_prop d ''status'' = Inr (JStr ''0'') \<and> (\<forall>m. get_prop d ''message'' \<noteq> Inr (JStr m)))"
      and "d' = d"
      by auto
    from absorbed_classification [OF d] Response \<open>d' = d\<close> show ?thesis
      by (subst logs_unfold) auto
  qed
next
  assume "internal_loop srv key address endblock block result tr = Some (Inl x, tr')"
  from internal_loop_throws [OF this] show "x = TypeError" by simp
next
  assume "logs_loop srv key address topic endblock block result tr = Some (Inl x, tr')"
  from logs_loop_throws [OF this] show "x = TypeError" by simp
qed

text \<open>
  A response with status \<^verbatim>\<open>"0"\<close> and no message at all: the classification throws
  inside \<^verbatim>\<open>try\<close>, and both operations return the empty array.
\<close>

theorem client_never_rejects_witness:
  "(\<exists>w. api_getInternalTransactionsByAddress (\<lambda>h. Response (JObj [(''status'', JStr ''0'')]))
          ''key'' ''0xa4'' 0 9999 [] =
        Some (Inr (JArr []), Request (internal_request ''key'' ''0xa4'' 0 9999) # w))
   \<and> (\<exists>w. api_getLogsByAddressTopic (\<lambda>h. Response (JObj [(''status'', JStr ''0'')]))
          ''key'' ''0xa4'' ''0xddf2'' 0 9999 [] =
        Some (Inr (JArr []), Request (logs_request ''key'' ''0xa4'' ''0xddf2'' 0 9999) # w))"
proof -
  note t = client_never_rejects
    [where srv = "\<lambda>h. Response (JObj [(''status'', JStr ''0'')])" and tr = "[]"
       and key = "''key''" and address = "''0xa4''" and topic = "''0xddf2''"
       and s = 0 and e = 9999 and d = "JObj [(''status'', JStr ''0'')]"]
  show ?thesis
    using t [THEN conjunct2, THEN conjunct2, THEN conjunct2, THEN conjunct2, THEN conjunct1]
      t [THEN conjunct2, THEN conjunct2, THEN conjunct2, THEN conjunct2, THEN conjunct2,
         THEN conjunct1]
    by simp
qed

text \<open>
  The claim as stated fails on a response with status \<^verbatim>\<open>"1"\<close> and no result: the
  client returns \<^verbatim>\<open>undefined\<close>, which is no sequence, and the fetch that called
  it ends in its \<^verbatim>\<open>catch\<close>, with the warning and the empty array.
\<close>

theorem status_1_without_result_counterexample:
  "api_getInternalTransactionsByAddress (\<lambda>h. Response (JObj [(''status'', JStr ''1'')]))
     ''key'' ''0xa4'' 0 0 [ConsoleLog (Processing 0 0)] =
     Some (Inr JUndefined,
           [ConsoleLog (Processing 0 0), Request (internal_request ''key'' ''0xa4'' 0 0)])
   \<and> service_getInternalTransactionsByAddress (\<lambda>h. Response (JObj [(''status'', JStr ''1'')]))
     ''key'' ''0xa4'' 0 0 [] =
     Some ([], [ConsoleLog (Processing 0 0), Request (internal_request ''key'' ''0xa4'' 0 0),
                ConsoleWarn (CouldNotFetchInternal ''0xa4'' TypeError)])
   \<and> api_getLogsByAddressTopic (\<lambda>h. Response (JObj [(''status'', JStr ''1'')]))
     ''key'' ''0xa4'' ''0xddf2'' 0 0 [ConsoleLog (Processing 0 0)] =
     Some (Inr JUndefined,
           [ConsoleLog (Processing 0 0), Request (logs_request ''key'' ''0xa4'' ''0xddf2'' 0 0)])
   \<and> service_getLogsByAddressTopic (\<lambda>h. Response (JObj [(''status'', JStr ''1'')]))
     ''key'' ''0xa4'' ''0xddf2'' 0 0 [] =
     Some ([], [ConsoleLog (Processing 0 0), Request (logs_request ''key'' ''0xa4'' ''0xddf2'' 0 0),
                ConsoleWarn (CouldNotFetchLogs ''0xa4'' TypeError)])"
proof -
  let ?srv = "\<lambda>h :: event list. Response (JObj [(''status'', JStr ''1'')])"
  have sr: "safe_range 0 0" by (simp add: safe_range_def)
  have i: "api_getInternalTransactionsByAddress ?srv ''key'' ''0xa4'' 0 0 [ConsoleLog (Processing 0 0)] =
     Some (Inr JUndefined,
           [ConsoleLog (Processing 0 0), Request (internal_request ''key'' ''0xa4'' 0 0)])"
    using internal_success [where srv = ?srv and kvs = "[(''status'', JStr ''1'')]"
        and tr = "[ConsoleLog (Processing 0 0)]" and key = "''key''" and address = "''0xa4''"
        and s = 0 and e = 0]
    by simp
  have l: "api_getLogsByAddressTopic ?srv ''key'' ''0xa4'' ''0xddf2'' 0 0 [ConsoleLog (Processing 0 0)] =
     Some (Inr JUndefined,
           [ConsoleLog (Processing 0 0), Request (logs_request ''key'' ''0xa4'' ''0xddf2'' 0 0)])"
    using logs_success [where srv = ?srv and kvs = "[(''status'', JStr ''1'')]"
        and tr = "[ConsoleLog (Processing 0 0)]" and key = "''key''" and address = "''0xa4''"
        and topic = "''0xddf2''" and s = 0 and e = 0]
    by simp
  from i l show ?thesis
    by (simp add: internal_service_single [OF sr] logs_service_single [OF sr])
qed

section \<open>\<^verbatim>\<open>getLatestBlock\<close>\<close>












section \<open>Servers of the examples, and sums that are rounded\<close>

lemma no_records_internal:
  "api_getInternalTransactionsByAddress (\<lambda>h. reply_no_records) key address a b h =
     Some (Inr (JArr []), h @ [Request (internal_request key address a b)])"
  by (subst internal_unfold)
     (simp add: reply_no_records_def is_retry_def is_success_def strict_eq_def)

lemma no_records_logs:
  "api_getLogsByAddressTopic (\<lambda>h. reply_no_records) key address topic a b h =
     Some (Inr (JArr []), h @ [Request (logs_request key address topic a b)])"
  by (subst logs_unfold)
     (simp add: reply_no_records_def is_retry_def is_success_def strict_eq_def)

lemma example_server_logs:
  "\<exists>h'. api_getLogsByAddressTopic example_server key address topic a b h =
          Some (Inr (JArr (example_records a b)), h')"
proof -
  have "example_server (h @ [Request (logs_request key address topic a b)]) =
      (if example_records a b = [] then reply_no_records else reply_ok (example_records a b))"
    by (simp add: example_server_def logs_request_def example_records_def)
  then show ?thesis
    by (subst logs_unfold)
       (simp add: reply_no_records_def reply_ok_def is_retry_def is_success_def strict_eq_def)
qed

lemma constant_server_internal:
  "\<exists>h'. api_getInternalTransactionsByAddress (\<lambda>h. reply_ok xs) key address a b h =
          Some (Inr (JArr xs), h')"
  by (subst internal_unfold) (simp add: reply_ok_def is_retry_def is_success_def strict_eq_def)

text \<open>At \<open>2^53\<close> the sums of the logs loop are rounded to even; at \<open>10^19\<close> and at
  \<open>2^67\<close> adding the window size changes nothing.\<close>

lemma rounded_at_2_53:
  "js_add 9007199254740992 999 = 9007199254741992"
  "js_add 9007199254740992 1000 = 9007199254741992"
  "js_add 9007199254741992 999 = 9007199254742992"
  "js_add 9007199254741992 1000 = 9007199254742992"
  by code_simp+

lemma stuck_at_10_19:
  "js_add 10000000000000000000 1000 = 10000000000000000000"
  "js_add 10000000000000000000 999 = 10000000000000000000"
  by code_simp+

lemma stuck_at_2_67:
  "js_add 147573952589676412928 10000 = 147573952589676412928"
  "js_add 147573952589676412928 9999 = 147573952589676412928"
  by code_simp+

section \<open>A range that is empty\<close>

text \<open>
  C9. For a range with start above end, each windowed fetch returns the empty array at
  once: the trace is unchanged, so no request is sent and no line is written.
\<close>

theorem inverted_range_fetches_nothing:
  "e < s \<longrightarrow>
     service_getInternalTransactionsByAddress srv key address s e tr = Some ([], tr)
     \<and> service_getLogsByAddressTopic srv key address topic s e tr = Some ([], tr)"
  by (simp add: service_getInternalTransactionsByAddress_def service_getLogsByAddressTopic_def
      internal_loop_done logs_loop_done)

theorem inverted_range_fetches_nothing_witness:
  "(5::int) < 10
   \<and> service_getInternalTransactionsByAddress example_server ''key'' ''0xa4'' 10 5 [] = Some ([], [])
   \<and> service_getLogsByAddressTopic example_server ''key'' ''0xa4'' ''0xddf2'' 10 5 [] = Some ([], [])"
  using inverted_range_fetches_nothing
    [where s = 10 and e = 5 and srv = example_server and key = "''key''" and address = "''0xa4''"
       and topic = "''0xddf2''" and tr = "[]"]
  by simp

text \<open>Every window a loop writes ends where the loop's own expression puts it,
  whatever the block numbers are.\<close>

lemma internal_loop_windows:
  assumes "internal_loop srv key address endblock block result tr = Some y"
  shows "\<exists>ws. windows_of (snd y) = windows_of tr @ ws \<and>
           (\<forall>(a, b) \<in> set ws. b = internal_window_end a endblock)"
  apply (rule internal_loop.raw_induct
      [where P = "\<lambda>_ _ _ endblock _ _ tr y.
         \<exists>ws. windows_of (snd y) = windows_of tr @ ws \<and>
           (\<forall>(a, b) \<in> set ws. b = internal_window_end a endblock)", OF _ assms])
  subgoal premises prems for f srv key address endblock block result tr y
  proof (cases "block \<le> endblock")
    case False
    with prems(2) have "windows_of (snd y) = windows_of tr @ []" by auto
    then show ?thesis by (intro exI [of _ "[]"]) simp
  next
    case True
    let ?end = "internal_window_end block endblock"
    from prems(2) True obtain q tr2 where
      c: "api_getInternalTransactionsByAddress srv key address block ?end
            (tr @ [ConsoleLog (Processing block ?end)]) = Some (q, tr2)"
      and r: "(case q of
                 Inl x \<Rightarrow> Some (Inl x, tr2)
               | Inr data \<Rightarrow>
                   (case spread data of
                      Inl x \<Rightarrow> Some (Inl x, tr2)
                    | Inr items \<Rightarrow>
                        f srv key address endblock (js_add block 10000) (result @ items) tr2))
              = Some y"
      by (auto simp: Let_def internal_window_end_def split: Option.bind_split_asm)
    from internal_windows_of [OF c]
    have w: "windows_of tr2 = windows_of tr @ [(block, ?end)]"
      by (simp add: windows_of_append)
    from internal_returns_value [OF c] obtain data where q: "q = Inr data" by auto
    show ?thesis
    proof (cases "spread data")
      case (Inl z)
      with r q have "snd y = tr2" by auto
      with w show ?thesis by (intro exI [of _ "[(block, ?end)]"]) simp
    next
      case (Inr items)
      with r q have "f srv key address endblock (js_add block 10000) (result @ items) tr2 = Some y"
        by simp
      from prems(1) [OF this] obtain ws where
        "windows_of (snd y) = windows_of tr2 @ ws"
        "\<forall>(a, b) \<in> set ws. b = internal_window_end a endblock"
        by blast
      with w show ?thesis by (intro exI [of _ "(block, ?end) # ws"]) simp
    qed
  qed
  done

lemma logs_loop_windows:
  assumes "logs_loop srv key address topic endblock block result tr = Some y"
  shows "\<exists>ws. windows_of (snd y) = windows_of tr @ ws \<and>
           (\<forall>(a, b) \<in> set ws. b = logs_window_end a endblock)"
  apply (rule logs_loop.raw_induct
      [where P = "\<lambda>_ _ _ _ endblock _ _ tr y.
         \<exists>ws. windows_of (snd y) = windows_of tr @ ws \<and>
           (\<forall>(a, b) \<in> set ws. b = logs_window_end a endblock)", OF _ assms])
  subgoal premises prems for f srv key address topic endblock block result tr y
  proof (cases "block \<le> endblock")
    case False
    with prems(2) have "windows_of (snd y) = windows_of tr @ []" by auto
    then show ?thesis by (intro exI [of _ "[]"]) simp
  next
    case True
    let ?end = "logs_window_end block endblock"
    from prems(2) True obtain q tr2 where
      c: "api_getLogsByAddressTopic srv key address topic block ?end
            (tr @ [ConsoleLog (Processing block ?end)]) = Some (q, tr2)"
      and r: "(case q of
                 Inl x \<Rightarrow> Some (Inl x, tr2)
               | Inr data \<Rightarrow>
                   (case spread data of
                      Inl x \<Rightarrow> Some (Inl x, tr2)
                    | Inr items \<Rightarrow>
                        f srv key address topic endblock (js_add block 1000) (result @ items) tr2))
              = Some y"
      by (auto simp: Let_def logs_window_end_def split: Option.bind_split_asm)
    from logs_windows_of [OF c]
    have w: "windows_of tr2 = windows_of tr @ [(block, ?end)]"
      by (simp add: windows_of_append)
    from logs_returns_value [OF c] obtain data where q: "q = Inr data" by auto
    show ?thesis
    proof (cases "spread data")
      case (Inl z)
      with r q have "snd y = tr2" by auto
      with w show ?thesis by (intro exI [of _ "[(block, ?end)]"]) simp
    next
      case (Inr items)
      with r q have "f srv key address topic endblock (js_add block 1000) (result @ items) tr2 = Some y"
        by simp
      from prems(1) [OF this] obtain ws where
        "windows_of (snd y) = windows_of tr2 @ ws"
        "\<forall>(a, b) \<in> set ws. b = logs_window_end a endblock"
        by blast
      with w show ?thesis by (intro exI [of _ "(block, ?end) # ws"]) simp
    qed
  qed
  done

section \<open>A range of one block\<close>

text \<open>
  C7, as the code has it. For a range whose start and end are the same block \<open>s\<close>,
  with \<open>s\<close> where the arithmetic of the loop is exact (above \<open>- 2^53\<close>, and
  \<open>s + 10000\<close> below \<open>2^53\<close>), each windowed fetch has exactly one window,
  \<open>[s, s]\<close>: it calls its client operation once, on that window, and returns what
  the call gave; the one window is the only one written to the console; and when the
  reply is no transient failure, exactly one request is sent.
\<close>

theorem single_block_single_window:
  assumes "safe_range s s"
  shows
  "spec_windows 10000 s s = [(s, s)] \<and> spec_windows 1000 s s = [(s, s)]
   \<and> service_getInternalTransactionsByAddress srv key address s s tr =
       Option.bind
         (api_getInternalTransactionsByAddress srv key address s s (tr @ [ConsoleLog (Processing s s)]))
         (\<lambda>(r, tr2). case r of
            Inl x \<Rightarrow> Some ([], tr2 @ [ConsoleWarn (CouldNotFetchInternal address x)])
          | Inr data \<Rightarrow>
              (case spread data of
                 Inl x \<Rightarrow> Some ([], tr2 @ [ConsoleWarn (CouldNotFetchInternal address x)])
               | Inr items \<Rightarrow> Some (items, tr2)))
   \<and> service_getLogsByAddressTopic srv key address topic s s tr =
       Option.bind
         (api_getLogsByAddressTopic srv key address topic s s (tr @ [ConsoleLog (Processing s s)]))
         (\<lambda>(r, tr2). case r of
            Inl x \<Rightarrow> Some ([], tr2 @ [ConsoleWarn (CouldNotFetchLogs address x)])
          | Inr data \<Rightarrow>
              (case spread data of
                 Inl x \<Rightarrow> Some ([], tr2 @ [ConsoleWarn (CouldNotFetchLogs address x)])
               | Inr items \<Rightarrow> Some (items, tr2)))
   \<and> (service_getInternalTransactionsByAddress srv key address s s tr = Some (out, tr')
      \<longrightarrow> windows_of tr' = windows_of tr @ [(s, s)])
   \<and> (service_getLogsByAddressTopic srv key address topic s s tr = Some (out, tr')
      \<longrightarrow> windows_of tr' = windows_of tr @ [(s, s)])
   \<and> (\<not> notok_reply (srv (tr @ [ConsoleLog (Processing s s),
                                Request (internal_request key address s s)]))
      \<longrightarrow> (\<exists>items h. service_getInternalTransactionsByAddress srv key address s s tr = Some (items, h)
            \<and> filter is_request h = filter is_request tr @ [Request (internal_request key address s s)]))
   \<and> (\<not> notok_reply (srv (tr @ [ConsoleLog (Processing s s),
                                Request (logs_request key address topic s s)]))
      \<longrightarrow> (\<exists>items h. service_getLogsByAddressTopic srv key address topic s s tr = Some (items, h)
            \<and> filter is_request h = filter is_request tr @ [Request (logs_request key address topic s s)]))"
proof (intro conjI impI)
  show "spec_windows 10000 s s = [(s, s)]" "spec_windows 1000 s s = [(s, s)]"
    by (simp_all add: spec_windows_step spec_windows_empty)
next
  show "service_getInternalTransactionsByAddress srv key address s s tr =
       Option.bind
         (api_getInternalTransactionsByAddress srv key address s s (tr @ [ConsoleLog (Processing s s)]))
         (\<lambda>(r, tr2). case r of
            Inl x \<Rightarrow> Some ([], tr2 @ [ConsoleWarn (CouldNotFetchInternal address x)])
          | Inr data \<Rightarrow>
              (case spread data of
                 Inl x \<Rightarrow> Some ([], tr2 @ [ConsoleWarn (CouldNotFetchInternal address x)])
               | Inr items \<Rightarrow> Some (items, tr2)))"
    using assms by (rule internal_service_single)
next
  show "service_getLogsByAddressTopic srv key address topic s s tr =
       Option.bind
         (api_getLogsByAddressTopic srv key address topic s s (tr @ [ConsoleLog (Processing s s)]))
         (\<lambda>(r, tr2). case r of
            Inl x \<Rightarrow> Some ([], tr2 @ [ConsoleWarn (CouldNotFetchLogs address x)])
          | Inr data \<Rightarrow>
              (case spread data of
                 Inl x \<Rightarrow> Some ([], tr2 @ [ConsoleWarn (CouldNotFetchLogs address x)])
               | Inr items \<Rightarrow> Some (items, tr2)))"
    using assms by (rule logs_service_single)
next
  assume a: "service_getInternalTransactionsByAddress srv key address s s tr = Some (out, tr')"
  then obtain y where y: "api_getInternalTransactionsByAddress srv key address s s
      (tr @ [ConsoleLog (Processing s s)]) = Some y" and "windows_of tr' = windows_of (snd y)"
    by (auto simp: internal_service_single [OF assms] windows_of_append
        split: Option.bind_split_asm sum.splits)
  with internal_windows_of [OF y] show "windows_of tr' = windows_of tr @ [(s, s)]"
    by (simp add: windows_of_append)
next
  assume a: "service_getLogsByAddressTopic srv key address topic s s tr = Some (out, tr')"
  then obtain y where y: "api_getLogsByAddressTopic srv key address topic s s
      (tr @ [ConsoleLog (Processing s s)]) = Some y" and "windows_of tr' = windows_of (snd y)"
    by (auto simp: logs_service_single [OF assms] windows_of_append
        split: Option.bind_split_asm sum.splits)
  with logs_windows_of [OF y] show "windows_of tr' = windows_of tr @ [(s, s)]"
    by (simp add: windows_of_append)
next
  assume "\<not> notok_reply (srv (tr @ [ConsoleLog (Processing s s),
                                Request (internal_request key address s s)]))"
  then have "\<not> notok_reply (srv ((tr @ [ConsoleLog (Processing s s)])
                                @ [Request (internal_request key address s s)]))"
    by simp
  from internal_settled_once [where srv = srv, OF this] obtain v h where
    "api_getInternalTransactionsByAddress srv key address s s (tr @ [ConsoleLog (Processing s s)])
       = Some (Inr v, h)"
    "filter is_request h = filter is_request tr @ [Request (internal_request key address s s)]"
    by (auto simp: is_request_def)
  then show "\<exists>items h. service_getInternalTransactionsByAddress srv key address s s tr = Some (items, h)
            \<and> filter is_request h = filter is_request tr @ [Request (internal_request key address s s)]"
    by (cases "spread v") (simp_all add: internal_service_single [OF assms] is_request_def)
next
  assume "\<not> notok_reply (srv (tr @ [ConsoleLog (Processing s s),
                                Request (logs_request key address topic s s)]))"
  then have "\<not> notok_reply (srv ((tr @ [ConsoleLog (Processing s s)])
                                @ [Request (logs_request key address topic s s)]))"
    by simp
  from logs_settled_once [where srv = srv, OF this] obtain v h where
    "api_getLogsByAddressTopic srv key address topic s s (tr @ [ConsoleLog (Processing s s)])
       = Some (Inr v, h)"
    "filter is_request h = filter is_request tr @ [Request (logs_request key address topic s s)]"
    by (auto simp: is_request_def)
  then show "\<exists>items h. service_getLogsByAddressTopic srv key address topic s s tr = Some (items, h)
            \<and> filter is_request h = filter is_request tr @ [Request (logs_request key address topic s s)]"
    by (cases "spread v") (simp_all add: logs_service_single [OF assms] is_request_def)
qed

text \<open>Block 2000 alone, on the server of the examples: one window, one request.\<close>

theorem single_block_single_window_witness:
  "safe_range 2000 2000
   \<and> (\<exists>items h. service_getLogsByAddressTopic example_server ''key'' ''0xa4'' ''0xddf2'' 2000 2000 []
                = Some (items, h)
     \<and> filter is_request h = [Request (logs_request ''key'' ''0xa4'' ''0xddf2'' 2000 2000)])
   \<and> (\<exists>items h. service_getInternalTransactionsByAddress example_server ''key'' ''0xa4'' 2000 2000 []
                = Some (items, h)
     \<and> filter is_request h = [Request (internal_request ''key'' ''0xa4'' 2000 2000)])"
proof -
  have sr: "safe_range 2000 2000" by (simp add: safe_range_def)
  note t = single_block_single_window
    [OF sr, where srv = example_server and key = "''key''" and address = "''0xa4''"
       and topic = "''0xddf2''" and tr = "[]"]
  note defs = example_server_def example_records_def reply_ok_def reply_no_records_def
    notok_reply_def logs_request_def internal_request_def
  have "\<exists>items h. service_getInternalTransactionsByAddress example_server ''key'' ''0xa4'' 2000 2000 []
                = Some (items, h)
     \<and> filter is_request h = [Request (internal_request ''key'' ''0xa4'' 2000 2000)]"
    using t [THEN conjunct2, THEN conjunct2, THEN conjunct2, THEN conjunct2, THEN conjunct2,
        THEN conjunct2, THEN conjunct1]
    by (simp add: defs)
  moreover
  have "\<exists>items h. service_getLogsByAddressTopic example_server ''key'' ''0xa4'' ''0xddf2'' 2000 2000 []
                = Some (items, h)
     \<and> filter is_request h = [Request (logs_request ''key'' ''0xa4'' ''0xddf2'' 2000 2000)]"
    using t [THEN conjunct2, THEN conjunct2, THEN conjunct2, THEN conjunct2, THEN conjunct2,
        THEN conjunct2, THEN conjunct2]
    by (simp add: defs)
  ultimately show ?thesis using sr by (intro conjI)
qed


text \<open>
  The claim as stated fails where the loop variable no longer moves. At
  \<open>s = 2^67\<close> the sum \<^verbatim>\<open>block + 10000\<close> is \<open>s\<close> again: after its first window
  and request the loop of internal transactions stands at the same block with the
  same end, and the fetch never returns, on a server that answers every request with
  \<^verbatim>\<open>No records found\<close>.
\<close>

theorem single_block_repeats_counterexample:
  "service_getInternalTransactionsByAddress (\<lambda>h. reply_no_records) ''key'' ''0xa4''
     147573952589676412928 147573952589676412928 [] = None
   \<and> internal_loop (\<lambda>h. reply_no_records) ''key'' ''0xa4''
       147573952589676412928 147573952589676412928 [] [] =
     internal_loop (\<lambda>h. reply_no_records) ''key'' ''0xa4''
       147573952589676412928 147573952589676412928 []
       [ConsoleLog (Processing 147573952589676412928 147573952589676412928),
        Request (internal_request ''key'' ''0xa4'' 147573952589676412928 147573952589676412928)]"
proof -
  have "internal_loop (\<lambda>h. reply_no_records) ''key'' ''0xa4''
          147573952589676412928 147573952589676412928 [] [] = None"
    by (rule internal_loop_stuck) (simp_all add: stuck_at_2_67 no_records_internal)
  then have "service_getInternalTransactionsByAddress (\<lambda>h. reply_no_records) ''key'' ''0xa4''
     147573952589676412928 147573952589676412928 [] = None"
    by (simp add: service_getInternalTransactionsByAddress_def)
  moreover
  have "internal_loop (\<lambda>h. reply_no_records) ''key'' ''0xa4''
       147573952589676412928 147573952589676412928 [] [] =
     internal_loop (\<lambda>h. reply_no_records) ''key'' ''0xa4''
       147573952589676412928 147573952589676412928 []
       [ConsoleLog (Processing 147573952589676412928 147573952589676412928),
        Request (internal_request ''key'' ''0xa4'' 147573952589676412928 147573952589676412928)]"
    by (subst internal_loop_step)
       (simp_all add: internal_window_end_def stuck_at_2_67 no_records_internal)
  ultimately show ?thesis by (intro conjI)
qed

section \<open>The windows partition the range\<close>

text \<open>A client that answers every window with an array: the loop calls it on every
  window of the list and writes each window to the console.\<close>

lemma run_windows_all:
  assumes c: "\<And>a b h. \<exists>items h'. call a b h = Some (Inr (JArr items), h')"
    and w: "\<And>a b h y. call a b h = Some y \<Longrightarrow> windows_of (snd y) = windows_of h"
  shows "\<exists>out tr'. run_windows call ws result tr = Some (Inr out, tr') \<and>
           windows_of tr' = windows_of tr @ ws"
proof (induction ws arbitrary: result tr)
  case Nil
  show ?case by simp
next
  case (Cons p ws)
  obtain a b where p: "p = (a, b)" by (cases p)
  from c [of a b "tr @ [ConsoleLog (Processing a b)]"] obtain items h' where
    k: "call a b (tr @ [ConsoleLog (Processing a b)]) = Some (Inr (JArr items), h')"
    by blast
  from w [OF k] have h: "windows_of h' = windows_of tr @ [(a, b)]"
    by (simp add: windows_of_append)
  from Cons.IH [of "result @ items" h'] obtain out tr' where
    "run_windows call ws (result @ items) h' = Some (Inr out, tr')"
    "windows_of tr' = windows_of h' @ ws"
    by blast
  with k h p show ?case by simp
qed

text \<open>
  C1, as the code has it. For every range with \<open>s \<le> e\<close> whose blocks lie where the
  arithmetic of the loops is exact (\<open>s\<close> above \<open>- 2^53\<close>, \<open>e + 10000\<close> below
  \<open>2^53\<close>), the fetch of internal transactions runs its client over the windows of
  size 10000 and the fetch of logs over the windows of size 1000, one call for each
  window, in the order of the list, up to the first window whose result cannot be
  spread. For either size \<open>w\<close> the number of windows is \<open>\<lceil>(e - s + 1) / w\<rceil>\<close>;
  window \<open>k\<close> is \<open>[s + k w, min (s + k w + w - 1) e]\<close>; the first starts at \<open>s\<close>
  and the last ends at \<open>e\<close>; each window starts one block after the one before it
  ends (contiguous); every window ends before every later one starts (ascending, no
  overlap); and the union of the windows is exactly \<open>[s, e]\<close>. A loop that ends
  without an exception has written exactly these windows to the console, in this
  order; a fetch that returns has written a non-empty initial segment of them; and
  when the client answers every window with an array, the fetch returns and has
  written them all.
\<close>

theorem windows_partition_range:
  assumes "s \<le> e" and "safe_range s e"
  shows
  "service_getInternalTransactionsByAddress srv key address s e tr =
     (case run_windows (api_getInternalTransactionsByAddress srv key address)
             (spec_windows 10000 s e) [] tr of
        None \<Rightarrow> None
      | Some (Inl x, tr') \<Rightarrow> Some ([], tr' @ [ConsoleWarn (CouldNotFetchInternal address x)])
      | Some (Inr result, tr') \<Rightarrow> Some (result, tr'))
   \<and> service_getLogsByAddressTopic srv key address topic s e tr =
     (case run_windows (api_getLogsByAddressTopic srv key address topic)
             (spec_windows 1000 s e) [] tr of
        None \<Rightarrow> None
      | Some (Inl x, tr') \<Rightarrow> Some ([], tr' @ [ConsoleWarn (CouldNotFetchLogs address x)])
      | Some (Inr result, tr') \<Rightarrow> Some (result, tr'))
   \<and> (\<forall>w \<in> {10000, 1000}.
        length (spec_windows w s e) = nat \<lceil>real_of_int (e - s + 1) / real_of_int w\<rceil>
      \<and> (\<forall>k < length (spec_windows w s e).
            spec_windows w s e ! k = (s + int k * w, min (s + int k * w + w - 1) e))
      \<and> fst (hd (spec_windows w s e)) = s
      \<and> snd (last (spec_windows w s e)) = e
      \<and> (\<forall>k. Suc k < length (spec_windows w s e) \<longrightarrow>
            fst (spec_windows w s e ! Suc k) = snd (spec_windows w s e ! k) + 1)
      \<and> sorted_wrt (\<lambda>p q. snd p < fst q) (spec_windows w s e)
      \<and> (\<Union>(a, b) \<in> set (spec_windows w s e). {a..b}) = {s..e})
   \<and> (internal_loop srv key address e s [] tr = Some (Inr out, tr')
      \<longrightarrow> windows_of tr' = windows_of tr @ spec_windows 10000 s e)
   \<and> (logs_loop srv key address topic e s [] tr = Some (Inr out, tr')
      \<longrightarrow> windows_of tr' = windows_of tr @ spec_windows 1000 s e)
   \<and> (service_getInternalTransactionsByAddress srv key address s e tr = Some (out, tr')
      \<longrightarrow> (\<exists>n. 0 < n \<and> windows_of tr' = windows_of tr @ take n (spec_windows 10000 s e)))
   \<and> (service_getLogsByAddressTopic srv key address topic s e tr = Some (out, tr')
      \<longrightarrow> (\<exists>n. 0 < n \<and> windows_of tr' = windows_of tr @ take n (spec_windows 1000 s e)))
   \<and> ((\<forall>a b h. \<exists>items h'.
          api_getInternalTransactionsByAddress srv key address a b h = Some (Inr (JArr items), h'))
      \<longrightarrow> (\<exists>res h. service_getInternalTransactionsByAddress srv key address s e tr = Some (res, h)
            \<and> windows_of h = windows_of tr @ spec_windows 10000 s e))
   \<and> ((\<forall>a b h. \<exists>items h'.
          api_getLogsByAddressTopic srv key address topic a b h = Some (Inr (JArr items), h'))
      \<longrightarrow> (\<exists>res h. service_getLogsByAddressTopic srv key address topic s e tr = Some (res, h)
            \<and> windows_of h = windows_of tr @ spec_windows 1000 s e))"
proof (intro conjI ballI impI)
  show "service_getInternalTransactionsByAddress srv key address s e tr =
     (case run_windows (api_getInternalTransactionsByAddress srv key address)
             (spec_windows 10000 s e) [] tr of
        None \<Rightarrow> None
      | Some (Inl x, tr') \<Rightarrow> Some ([], tr' @ [ConsoleWarn (CouldNotFetchInternal address x)])
      | Some (Inr result, tr') \<Rightarrow> Some (result, tr'))"
    by (simp add: service_getInternalTransactionsByAddress_def internal_loop_run [OF assms(2)])
next
  show "service_getLogsByAddressTopic srv key address topic s e tr =
     (case run_windows (api_getLogsByAddressTopic srv key address topic)
             (spec_windows 1000 s e) [] tr of
        None \<Rightarrow> None
      | Some (Inl x, tr') \<Rightarrow> Some ([], tr' @ [ConsoleWarn (CouldNotFetchLogs address x)])
      | Some (Inr result, tr') \<Rightarrow> Some (result, tr'))"
    by (simp add: service_getLogsByAddressTopic_def logs_loop_run [OF assms(2)])
next
  fix w :: int
  assume "w \<in> {10000, 1000}"
  then have w: "0 < w" by auto
  from w show "length (spec_windows w s e) = nat \<lceil>real_of_int (e - s + 1) / real_of_int w\<rceil>"
    by (rule spec_windows_length)
  show "\<forall>k < length (spec_windows w s e).
            spec_windows w s e ! k = (s + int k * w, min (s + int k * w + w - 1) e)"
    by (simp add: spec_windows_nth)
  from w assms(1) show "fst (hd (spec_windows w s e)) = s"
    by (rule spec_windows_first)
  from w assms(1) show "snd (last (spec_windows w s e)) = e"
    by (rule spec_windows_last)
  show "\<forall>k. Suc k < length (spec_windows w s e) \<longrightarrow>
            fst (spec_windows w s e ! Suc k) = snd (spec_windows w s e ! k) + 1"
    by (simp add: spec_windows_contiguous)
  show "sorted_wrt (\<lambda>p q. snd p < fst q) (spec_windows w s e)"
    by (rule spec_windows_sorted)
  from w show "(\<Union>(a, b) \<in> set (spec_windows w s e). {a..b}) = {s..e}"
    by (rule spec_windows_union)
next
  assume "internal_loop srv key address e s [] tr = Some (Inr out, tr')"
  from internal_loop_trace [OF assms(2) this]
  show "windows_of tr' = windows_of tr @ spec_windows 10000 s e" by auto
next
  assume "logs_loop srv key address topic e s [] tr = Some (Inr out, tr')"
  from logs_loop_trace [OF assms(2) this]
  show "windows_of tr' = windows_of tr @ spec_windows 1000 s e" by auto
next
  assume "service_getInternalTransactionsByAddress srv key address s e tr = Some (out, tr')"
  from internal_service_trace [OF assms(2) this] assms(1)
  show "\<exists>n. 0 < n \<and> windows_of tr' = windows_of tr @ take n (spec_windows 10000 s e)"
    by auto
next
  assume "service_getLogsByAddressTopic srv key address topic s e tr = Some (out, tr')"
  from logs_service_trace [OF assms(2) this] assms(1)
  show "\<exists>n. 0 < n \<and> windows_of tr' = windows_of tr @ take n (spec_windows 1000 s e)"
    by auto
next
  assume a: "\<forall>a b h. \<exists>items h'.
          api_getInternalTransactionsByAddress srv key address a b h = Some (Inr (JArr items), h')"
  have "\<exists>res h. run_windows (api_getInternalTransactionsByAddress srv key address)
           (spec_windows 10000 s e) [] tr = Some (Inr res, h) \<and>
           windows_of h = windows_of tr @ spec_windows 10000 s e"
    by (rule run_windows_all) (use a in blast, rule internal_windows_of)
  then show "\<exists>res h. service_getInternalTransactionsByAddress srv key address s e tr = Some (res, h)
            \<and> windows_of h = windows_of tr @ spec_windows 10000 s e"
    by (auto simp: service_getInternalTransactionsByAddress_def internal_loop_run [OF assms(2)])
next
  assume a: "\<forall>a b h. \<exists>items h'.
          api_getLogsByAddressTopic srv key address topic a b h = Some (Inr (JArr items), h')"
  have "\<exists>res h. run_windows (api_getLogsByAddressTopic srv key address topic)
           (spec_windows 1000 s e) [] tr = Some (Inr res, h) \<and>
           windows_of h = windows_of tr @ spec_windows 1000 s e"
    by (rule run_windows_all) (use a in blast, rule logs_windows_of)
  then show "\<exists>res h. service_getLogsByAddressTopic srv key address topic s e tr = Some (res, h)
            \<and> windows_of h = windows_of tr @ spec_windows 1000 s e"
    by (auto simp: service_getLogsByAddressTopic_def logs_loop_run [OF assms(2)])
qed

text \<open>The fetch of logs over \<open>[0, 2999]\<close>, on the server of the examples, writes its
  three windows; and the range \<open>[0, 25000]\<close> has three windows of internal
  transactions, the last one short, and twenty-six windows of logs.\<close>

theorem windows_partition_range_witness:
  "(0::int) \<le> 2999 \<and> safe_range 0 2999
   \<and> (\<exists>res h. service_getLogsByAddressTopic example_server ''key'' ''0xa4'' ''0xddf2'' 0 2999 []
                 = Some (res, h)
        \<and> windows_of h = [(0, 999), (1000, 1999), (2000, 2999)])
   \<and> (0::int) \<le> 25000 \<and> safe_range 0 25000
   \<and> length (spec_windows 10000 0 25000) = 3
   \<and> spec_windows 10000 0 25000 ! 2 = (20000, 25000)
   \<and> length (spec_windows 1000 0 25000) = 26
   \<and> spec_windows 1000 0 25000 ! 25 = (25000, 25000)"
proof -
  have le: "(0::int) \<le> 2999" and sr: "safe_range 0 2999" by (simp_all add: safe_range_def)
  have ex: "\<forall>a b h. \<exists>items h'.
      api_getLogsByAddressTopic example_server ''key'' ''0xa4'' ''0xddf2'' a b h
        = Some (Inr (JArr items), h')"
    using example_server_logs by blast
  have sw: "spec_windows 1000 0 2999 = [(0, 999), (1000, 1999), (2000, 2999)]"
    by (simp add: spec_windows_step spec_windows_empty)
  have f: "\<exists>res h. service_getLogsByAddressTopic example_server ''key'' ''0xa4'' ''0xddf2'' 0 2999 []
                 = Some (res, h)
        \<and> windows_of h = [(0, 999), (1000, 1999), (2000, 2999)]"
    using windows_partition_range [OF le sr, where srv = example_server and key = "''key''"
        and address = "''0xa4''" and topic = "''0xddf2''" and tr = "[]",
        THEN conjunct2, THEN conjunct2, THEN conjunct2, THEN conjunct2, THEN conjunct2,
        THEN conjunct2, THEN conjunct2, THEN conjunct2, THEN mp, OF ex]
    by (simp add: sw)
  have le2: "(0::int) \<le> 25000" and sr2: "safe_range 0 25000" by (simp_all add: safe_range_def)
  note t = windows_partition_range [OF le2 sr2, THEN conjunct2, THEN conjunct2, THEN conjunct1]
  have a: "length (spec_windows 10000 0 25000) = 3" using t by simp
  have b: "length (spec_windows 1000 0 25000) = 26" using t by simp
  have "spec_windows 10000 0 25000 ! 2 = (20000, 25000)" using t a by simp
  moreover have "spec_windows 1000 0 25000 ! 25 = (25000, 25000)" using t b by simp
  ultimately show ?thesis using a b f le sr le2 sr2 by simp
qed

text \<open>
  The claim as stated fails in two ways. From \<open>2^53\<close> on the sums of the loop are
  rounded: the fetch of logs over \<open>[2^53, 2^53 + 1000]\<close> writes the windows
  \<open>[2^53, 2^53 + 1000]\<close>, of 1001 blocks, and \<open>[2^53 + 1000, 2^53 + 1000]\<close>, which
  overlap in the block \<open>2^53 + 1000\<close>. And a window whose response has status
  \<^verbatim>\<open>"1"\<close> and no \<^verbatim>\<open>result\<close> ends the fetch: over \<open>[0, 2999]\<close> only the first of the
  three windows is written, and the fetch returns the empty array after a warning.
\<close>

theorem windows_overlap_counterexample:
  "service_getLogsByAddressTopic (\<lambda>h. reply_no_records) ''key'' ''0xa4'' ''0xddf2''
     9007199254740992 9007199254741992 [] =
   Some ([],
     [ConsoleLog (Processing 9007199254740992 9007199254741992),
      Request (logs_request ''key'' ''0xa4'' ''0xddf2'' 9007199254740992 9007199254741992),
      ConsoleLog (Processing 9007199254741992 9007199254741992),
      Request (logs_request ''key'' ''0xa4'' ''0xddf2'' 9007199254741992 9007199254741992)])
   \<and> service_getLogsByAddressTopic (\<lambda>h. Response (JObj [(''status'', JStr ''1'')]))
       ''key'' ''0xa4'' ''0xddf2'' 0 2999 [] =
     Some ([],
       [ConsoleLog (Processing 0 999),
        Request (logs_request ''key'' ''0xa4'' ''0xddf2'' 0 999),
        ConsoleWarn (CouldNotFetchLogs ''0xa4'' TypeError)])
   \<and> length (spec_windows 1000 0 2999) = 3"
proof -
  have u: "api_getLogsByAddressTopic (\<lambda>h. Response (JObj [(''status'', JStr ''1'')]))
      key address topic a b h =
      Some (Inr JUndefined, h @ [Request (logs_request key address topic a b)])"
    for key address topic a b h
    by (subst logs_unfold)
       (simp add: is_retry_def is_success_def strict_eq_def)
  have "logs_loop (\<lambda>h. reply_no_records) ''key'' ''0xa4'' ''0xddf2''
          9007199254741992 9007199254740992 [] [] =
     Some (Inr [],
     [ConsoleLog (Processing 9007199254740992 9007199254741992),
      Request (logs_request ''key'' ''0xa4'' ''0xddf2'' 9007199254740992 9007199254741992),
      ConsoleLog (Processing 9007199254741992 9007199254741992),
      Request (logs_request ''key'' ''0xa4'' ''0xddf2'' 9007199254741992 9007199254741992)])"
    by (simp add: logs_loop_step logs_loop_done logs_window_end_def rounded_at_2_53
        no_records_logs)
  then have a: "service_getLogsByAddressTopic (\<lambda>h. reply_no_records) ''key'' ''0xa4'' ''0xddf2''
     9007199254740992 9007199254741992 [] =
   Some ([],
     [ConsoleLog (Processing 9007199254740992 9007199254741992),
      Request (logs_request ''key'' ''0xa4'' ''0xddf2'' 9007199254740992 9007199254741992),
      ConsoleLog (Processing 9007199254741992 9007199254741992),
      Request (logs_request ''key'' ''0xa4'' ''0xddf2'' 9007199254741992 9007199254741992)])"
    by (simp add: service_getLogsByAddressTopic_def)
  have k: "js_add 0 999 = 999" by code_simp
  have "logs_loop (\<lambda>h. Response (JObj [(''status'', JStr ''1'')]))
          ''key'' ''0xa4'' ''0xddf2'' 2999 0 [] [] =
     Some (Inl TypeError,
       [ConsoleLog (Processing 0 999),
        Request (logs_request ''key'' ''0xa4'' ''0xddf2'' 0 999)])"
    by (simp add: logs_loop_step logs_window_end_def k u)
  then have b: "service_getLogsByAddressTopic (\<lambda>h. Response (JObj [(''status'', JStr ''1'')]))
       ''key'' ''0xa4'' ''0xddf2'' 0 2999 [] =
     Some ([],
       [ConsoleLog (Processing 0 999),
        Request (logs_request ''key'' ''0xa4'' ''0xddf2'' 0 999),
        ConsoleWarn (CouldNotFetchLogs ''0xa4'' TypeError)])"
    by (simp add: service_getLogsByAddressTopic_def)
  have c: "length (spec_windows 1000 0 2999) = 3"
    by (simp add: spec_windows_step spec_windows_empty)
  from a b c show ?thesis by (intro conjI)
qed

section \<open>An empty window, and the order of the output\<close>

text \<open>
  C4, as the code has it. A window for which the client returns the empty array adds
  nothing to the accumulator, and the loop goes on at the block that \<^verbatim>\<open>block += size\<close>
  gives. When the blocks of the range lie where the arithmetic of the loops is exact
  (start above \<open>- 2^53\<close>, end plus 10000 below \<open>2^53\<close>) and the client answers
  every window with an array, the fetch returns the arrays of the windows one after
  the other, in window order. For the range \<open>[0, 2999]\<close> of logs there are three
  windows; on a server that holds five records in the first and five in the third and
  answers the second with \<^verbatim>\<open>No records found\<close>, the fetch returns exactly those ten
  records, the five of the first window before the five of the third.
\<close>

theorem empty_window_is_skipped:
  "(block \<le> endblock \<and>
    api_getInternalTransactionsByAddress srv key address block (internal_window_end block endblock)
      (tr @ [ConsoleLog (Processing block (internal_window_end block endblock))])
      = Some (Inr (JArr []), tr2)
    \<longrightarrow> internal_loop srv key address endblock block result tr =
          internal_loop srv key address endblock (js_add block 10000) result tr2)
   \<and> (block \<le> endblock \<and>
      api_getLogsByAddressTopic srv key address topic block (logs_window_end block endblock)
        (tr @ [ConsoleLog (Processing block (logs_window_end block endblock))])
        = Some (Inr (JArr []), tr2)
      \<longrightarrow> logs_loop srv key address topic endblock block result tr =
            logs_loop srv key address topic endblock (js_add block 1000) result tr2)
   \<and> (safe_range s e \<and>
      (\<forall>a b h. \<exists>h'. api_getInternalTransactionsByAddress srv key address a b h =
                       Some (Inr (JArr (f a b)), h'))
      \<longrightarrow> (\<exists>tr'. service_getInternalTransactionsByAddress srv key address s e tr =
                  Some (concat (map (\<lambda>(a, b). f a b) (spec_windows 10000 s e)), tr')))
   \<and> (safe_range s e \<and>
      (\<forall>a b h. \<exists>h'. api_getLogsByAddressTopic srv key address topic a b h =
                       Some (Inr (JArr (f a b)), h'))
      \<longrightarrow> (\<exists>tr'. service_getLogsByAddressTopic srv key address topic s e tr =
                  Some (concat (map (\<lambda>(a, b). f a b) (spec_windows 1000 s e)), tr')))
   \<and> spec_windows 1000 0 2999 = [(0, 999), (1000, 1999), (2000, 2999)]
   \<and> (\<exists>h'. api_getLogsByAddressTopic example_server key address topic 0 999 h =
             Some (Inr (JArr (map record_at [''10'', ''11'', ''12'', ''500'', ''999''])), h'))
   \<and> (\<exists>h'. api_getLogsByAddressTopic example_server key address topic 1000 1999 h =
             Some (Inr (JArr []), h'))
   \<and> (\<exists>h'. api_getLogsByAddressTopic example_server key address topic 2000 2999 h =
             Some (Inr (JArr (map record_at [''2000'', ''2001'', ''2002'', ''2500'', ''2999''])), h'))
   \<and> (\<exists>out tr'. service_getLogsByAddressTopic example_server key address topic 0 2999 tr =
                   Some (out, tr')
        \<and> length out = 10
        \<and> out = map record_at [''10'', ''11'', ''12'', ''500'', ''999'',
                                ''2000'', ''2001'', ''2002'', ''2500'', ''2999''])"
proof (intro conjI impI)
  assume "block \<le> endblock \<and>
    api_getInternalTransactionsByAddress srv key address block (internal_window_end block endblock)
      (tr @ [ConsoleLog (Processing block (internal_window_end block endblock))])
      = Some (Inr (JArr []), tr2)"
  then show "internal_loop srv key address endblock block result tr =
          internal_loop srv key address endblock (js_add block 10000) result tr2"
    by (simp add: internal_loop_step)
next
  assume "block \<le> endblock \<and>
      api_getLogsByAddressTopic srv key address topic block (logs_window_end block endblock)
        (tr @ [ConsoleLog (Processing block (logs_window_end block endblock))])
        = Some (Inr (JArr []), tr2)"
  then show "logs_loop srv key address topic endblock block result tr =
            logs_loop srv key address topic endblock (js_add block 1000) result tr2"
    by (simp add: logs_loop_step)
next
  assume a: "safe_range s e \<and>
      (\<forall>a b h. \<exists>h'. api_getInternalTransactionsByAddress srv key address a b h =
                       Some (Inr (JArr (f a b)), h'))"
  then have sr: "safe_range s e" by simp
  from a have "\<exists>tr'. run_windows (api_getInternalTransactionsByAddress srv key address)
                     (spec_windows 10000 s e) [] tr =
                   Some (Inr ([] @ concat (map (\<lambda>(a, b). f a b) (spec_windows 10000 s e))), tr')"
    by (intro run_windows_concat) simp
  then show "\<exists>tr'. service_getInternalTransactionsByAddress srv key address s e tr =
                  Some (concat (map (\<lambda>(a, b). f a b) (spec_windows 10000 s e)), tr')"
    by (auto simp: service_getInternalTransactionsByAddress_def internal_loop_run [OF sr])
next
  assume a: "safe_range s e \<and>
      (\<forall>a b h. \<exists>h'. api_getLogsByAddressTopic srv key address topic a b h =
                       Some (Inr (JArr (f a b)), h'))"
  then have sr: "safe_range s e" by simp
  from a have "\<exists>tr'. run_windows (api_getLogsByAddressTopic srv key address topic)
                     (spec_windows 1000 s e) [] tr =
                   Some (Inr ([] @ concat (map (\<lambda>(a, b). f a b) (spec_windows 1000 s e))), tr')"
    by (intro run_windows_concat) simp
  then show "\<exists>tr'. service_getLogsByAddressTopic srv key address topic s e tr =
                  Some (concat (map (\<lambda>(a, b). f a b) (spec_windows 1000 s e)), tr')"
    by (auto simp: service_getLogsByAddressTopic_def logs_loop_run [OF sr])
next
  show w: "spec_windows 1000 0 2999 = [(0, 999), (1000, 1999), (2000, 2999)]"
    by (simp add: spec_windows_step spec_windows_empty)
  show "\<exists>h'. api_getLogsByAddressTopic example_server key address topic 0 999 h =
             Some (Inr (JArr (map record_at [''10'', ''11'', ''12'', ''500'', ''999''])), h')"
    using example_server_logs [of key address topic 0 999 h] by (simp add: example_records_def)
  show "\<exists>h'. api_getLogsByAddressTopic example_server key address topic 1000 1999 h =
             Some (Inr (JArr []), h')"
    using example_server_logs [of key address topic 1000 1999 h] by (simp add: example_records_def)
  show "\<exists>h'. api_getLogsByAddressTopic example_server key address topic 2000 2999 h =
             Some (Inr (JArr (map record_at [''2000'', ''2001'', ''2002'', ''2500'', ''2999''])), h')"
    using example_server_logs [of key address topic 2000 2999 h] by (simp add: example_records_def)
  have sr: "safe_range 0 2999" by (simp add: safe_range_def)
  have "\<exists>tr'. run_windows (api_getLogsByAddressTopic example_server key address topic)
                     (spec_windows 1000 0 2999) [] tr =
                   Some (Inr ([] @ concat (map (\<lambda>(a, b). example_records a b)
                                             (spec_windows 1000 0 2999))), tr')"
    by (intro run_windows_concat example_server_logs)
  then show "\<exists>out tr'. service_getLogsByAddressTopic example_server key address topic 0 2999 tr =
                   Some (out, tr')
        \<and> length out = 10
        \<and> out = map record_at [''10'', ''11'', ''12'', ''500'', ''999'',
                                ''2000'', ''2001'', ''2002'', ''2500'', ''2999'']"
    by (auto simp: service_getLogsByAddressTopic_def logs_loop_run [OF sr] w example_records_def)
qed

text \<open>
  The server of the examples, logs over \<open>[0, 2999]\<close>: the client answers the window
  \<open>[1000, 1999]\<close> with the empty array, the loop goes on from block 1000 to block
  2000 with its accumulator as it was, and the fetch returns the five records of the
  first window followed by the five of the third.
\<close>

theorem empty_window_is_skipped_witness:
  "safe_range 0 2999
   \<and> api_getLogsByAddressTopic example_server ''key'' ''0xa4'' ''0xddf2'' 1000 1999
        [ConsoleLog (Processing 1000 1999)] =
      Some (Inr (JArr []),
        [ConsoleLog (Processing 1000 1999),
         Request (logs_request ''key'' ''0xa4'' ''0xddf2'' 1000 1999)])
   \<and> logs_loop example_server ''key'' ''0xa4'' ''0xddf2'' 2999 1000 [record_at ''999''] [] =
      logs_loop example_server ''key'' ''0xa4'' ''0xddf2'' 2999 2000 [record_at ''999'']
        [ConsoleLog (Processing 1000 1999),
         Request (logs_request ''key'' ''0xa4'' ''0xddf2'' 1000 1999)]
   \<and> (\<exists>tr'. service_getLogsByAddressTopic example_server ''key'' ''0xa4'' ''0xddf2'' 0 2999 [] =
          Some (map record_at [''10'', ''11'', ''12'', ''500'', ''999'',
                               ''2000'', ''2001'', ''2002'', ''2500'', ''2999''], tr'))"
proof -
  have sr: "safe_range 0 2999" by (simp add: safe_range_def)
  have k: "js_add 1000 1000 = 2000" "logs_window_end 1000 2999 = 1999"
    by code_simp+
  have c: "api_getLogsByAddressTopic example_server ''key'' ''0xa4'' ''0xddf2'' 1000 1999
        [ConsoleLog (Processing 1000 1999)] =
      Some (Inr (JArr []),
        [ConsoleLog (Processing 1000 1999),
         Request (logs_request ''key'' ''0xa4'' ''0xddf2'' 1000 1999)])"
    by (subst logs_unfold)
       (simp add: example_server_def logs_request_def example_records_def
          reply_no_records_def is_retry_def is_success_def strict_eq_def)
  have h: "safe_range 0 2999 \<and>
      (\<forall>a b h. \<exists>h'. api_getLogsByAddressTopic example_server ''key'' ''0xa4'' ''0xddf2'' a b h =
                       Some (Inr (JArr (example_records a b)), h'))"
    using sr example_server_logs by blast
  have w: "spec_windows 1000 0 2999 = [(0, 999), (1000, 1999), (2000, 2999)]"
    by (simp add: spec_windows_step spec_windows_empty)
  note t = empty_window_is_skipped
    [where srv = example_server and key = "''key''" and address = "''0xa4''"
       and topic = "''0xddf2''" and f = example_records and s = 0 and e = 2999
       and block = 1000 and endblock = 2999 and result = "[record_at ''999'']" and tr = "[]"
       and ?tr2.0 = "[ConsoleLog (Processing 1000 1999),
         Request (logs_request ''key'' ''0xa4'' ''0xddf2'' 1000 1999)]"]
  have "logs_loop example_server ''key'' ''0xa4'' ''0xddf2'' 2999 1000 [record_at ''999''] [] =
      logs_loop example_server ''key'' ''0xa4'' ''0xddf2'' 2999 2000 [record_at ''999'']
        [ConsoleLog (Processing 1000 1999),
         Request (logs_request ''key'' ''0xa4'' ''0xddf2'' 1000 1999)]"
    using t [THEN conjunct2, THEN conjunct1] c by (simp add: k)
  moreover
  have "\<exists>tr'. service_getLogsByAddressTopic example_server ''key'' ''0xa4'' ''0xddf2'' 0 2999 [] =
          Some (map record_at [''10'', ''11'', ''12'', ''500'', ''999'',
                               ''2000'', ''2001'', ''2002'', ''2500'', ''2999''], tr')"
    using t [THEN conjunct2, THEN conjunct2, THEN conjunct2, THEN conjunct1, THEN mp, OF h]
    by (simp add: w example_records_def)
  ultimately show ?thesis using sr c by (intro conjI)
qed

text \<open>
  The claim as stated fails where the loop variable no longer moves. At block
  \<open>10^19\<close> the sum \<^verbatim>\<open>block + 1000\<close> is \<open>10^19\<close> again: on a server that answers
  every request with \<^verbatim>\<open>No records found\<close> the client returns the empty array for the
  window \<open>[10^19, 10^19]\<close>, the loop stands at the same block after it, and the fetch
  of logs over that range never returns.
\<close>

theorem empty_window_repeats_counterexample:
  "api_getLogsByAddressTopic (\<lambda>h. reply_no_records) ''key'' ''0xa4'' ''0xddf2''
     10000000000000000000 10000000000000000000
     [ConsoleLog (Processing 10000000000000000000 10000000000000000000)] =
   Some (Inr (JArr []),
     [ConsoleLog (Processing 10000000000000000000 10000000000000000000),
      Request (logs_request ''key'' ''0xa4'' ''0xddf2'' 10000000000000000000 10000000000000000000)])
   \<and> logs_loop (\<lambda>h. reply_no_records) ''key'' ''0xa4'' ''0xddf2''
       10000000000000000000 10000000000000000000 [] [] =
     logs_loop (\<lambda>h. reply_no_records) ''key'' ''0xa4'' ''0xddf2''
       10000000000000000000 10000000000000000000 []
       [ConsoleLog (Processing 10000000000000000000 10000000000000000000),
        Request (logs_request ''key'' ''0xa4'' ''0xddf2'' 10000000000000000000 10000000000000000000)]
   \<and> service_getLogsByAddressTopic (\<lambda>h. reply_no_records) ''key'' ''0xa4'' ''0xddf2''
       10000000000000000000 10000000000000000000 [] = None"
proof -
  have a: "api_getLogsByAddressTopic (\<lambda>h. reply_no_records) ''key'' ''0xa4'' ''0xddf2''
     10000000000000000000 10000000000000000000
     [ConsoleLog (Processing 10000000000000000000 10000000000000000000)] =
   Some (Inr (JArr []),
     [ConsoleLog (Processing 10000000000000000000 10000000000000000000),
      Request (logs_request ''key'' ''0xa4'' ''0xddf2'' 10000000000000000000 10000000000000000000)])"
    by (simp add: no_records_logs)
  have b: "logs_loop (\<lambda>h. reply_no_records) ''key'' ''0xa4'' ''0xddf2''
       10000000000000000000 10000000000000000000 [] [] =
     logs_loop (\<lambda>h. reply_no_records) ''key'' ''0xa4'' ''0xddf2''
       10000000000000000000 10000000000000000000 []
       [ConsoleLog (Processing 10000000000000000000 10000000000000000000),
        Request (logs_request ''key'' ''0xa4'' ''0xddf2'' 10000000000000000000 10000000000000000000)]"
    by (subst logs_loop_step)
       (simp_all add: logs_window_end_def stuck_at_10_19 no_records_logs)
  have "logs_loop (\<lambda>h. reply_no_records) ''key'' ''0xa4'' ''0xddf2''
          10000000000000000000 10000000000000000000 [] [] = None"
    by (rule logs_loop_stuck) (simp_all add: stuck_at_10_19 no_records_logs)
  then have c: "service_getLogsByAddressTopic (\<lambda>h. reply_no_records) ''key'' ''0xa4'' ''0xddf2''
       10000000000000000000 10000000000000000000 [] = None"
    by (simp add: service_getLogsByAddressTopic_def)
  from a b c show ?thesis by (intro conjI)
qed

section \<open>The size of the windows\<close>

lemma spec_windows_size:
  "(a, b) \<in> set (spec_windows w s e) \<Longrightarrow> b = min (a + w - 1) e"
proof (induction w s e rule: spec_windows.induct)
  case (1 w s e)
  show ?case
  proof (cases "0 < w \<and> s \<le> e")
    case True
    with 1 show ?thesis by (auto simp: spec_windows_step)
  next
    case False
    with 1 show ?thesis by (simp add: spec_windows_empty)
  qed
qed

lemma example_logs_fetch_returns:
  assumes "safe_range s e"
  shows "\<exists>out tr'. service_getLogsByAddressTopic example_server key address topic s e tr = Some (out, tr')"
proof -
  have "\<exists>tr'. run_windows (api_getLogsByAddressTopic example_server key address topic)
                     (spec_windows 1000 s e) [] tr =
                   Some (Inr ([] @ concat (map (\<lambda>(a, b). example_records a b)
                                             (spec_windows 1000 s e))), tr')"
    by (intro run_windows_concat example_server_logs)
  then show ?thesis
    by (auto simp: service_getLogsByAddressTopic_def logs_loop_run [OF assms])
qed

lemma internal_service_windows:
  assumes "service_getInternalTransactionsByAddress srv key address s e tr = Some (out, tr')"
  shows "\<exists>ws. windows_of tr' = windows_of tr @ ws \<and>
           (\<forall>(a, b) \<in> set ws. b = internal_window_end a e)"
proof -
  from assms obtain y where l: "internal_loop srv key address e s [] tr = Some y"
    and t: "windows_of tr' = windows_of (snd y)"
    by (auto simp: service_getInternalTransactionsByAddress_def windows_of_append
        split: option.splits sum.splits)
  from internal_loop_windows [OF l] t show ?thesis by simp
qed

lemma logs_service_windows:
  assumes "service_getLogsByAddressTopic srv key address topic s e tr = Some (out, tr')"
  shows "\<exists>ws. windows_of tr' = windows_of tr @ ws \<and>
           (\<forall>(a, b) \<in> set ws. b = logs_window_end a e)"
proof -
  from assms obtain y where l: "logs_loop srv key address topic e s [] tr = Some y"
    and t: "windows_of tr' = windows_of (snd y)"
    by (auto simp: service_getLogsByAddressTopic_def windows_of_append
        split: option.splits sum.splits)
  from logs_loop_windows [OF l] t show ?thesis by simp
qed

text \<open>
  C6, as the code has it. The window size is no parameter of either operation: the
  operations take the address (and the topic) and the two ends of the range, and
  the sizes 10000 and 1000 are written into the loops. Whatever the arguments, every
  window \<open>[a, b]\<close> that a fetch writes to the console ends where the loop's own
  expression puts it: \<open>b\<close> is \<^verbatim>\<open>a + 9999\<close> when that is below the end block, and the
  end block otherwise (\<^verbatim>\<open>a + 999\<close> for logs), the sum being that of the numbers of
  the language. When the blocks of the range lie where this sum is exact (start above
  \<open>- 2^53\<close>, end plus 10000 below \<open>2^53\<close>), the windows written are the first few
  windows of size 10000 (internal transactions) or 1000 (logs) of the range, at least
  one of them when the range is not empty and all of them when the loop ends
  normally; and each of these windows \<open>[a, b]\<close> has \<open>b = min (a + 9999) e\<close>, or
  \<open>min (a + 999) e\<close>.
\<close>

theorem window_size_is_fixed:
  "(service_getInternalTransactionsByAddress srv key address s e tr = Some (out, tr')
    \<longrightarrow> (\<exists>ws. windows_of tr' = windows_of tr @ ws \<and>
              (\<forall>(a, b) \<in> set ws.
                 b = (if js_add a 9999 < e then js_add a 9999 else e))))
   \<and> (service_getLogsByAddressTopic srv key address topic s e tr = Some (out, tr')
      \<longrightarrow> (\<exists>ws. windows_of tr' = windows_of tr @ ws \<and>
                (\<forall>(a, b) \<in> set ws.
                   b = (if js_add a 999 < e then js_add a 999 else e))))
   \<and> (safe_range s e \<and>
      service_getInternalTransactionsByAddress srv key address s e tr = Some (out, tr')
      \<longrightarrow> (\<exists>n. windows_of tr' = windows_of tr @ take n (spec_windows 10000 s e) \<and>
                (s \<le> e \<longrightarrow> 0 < n)))
   \<and> (safe_range s e \<and>
      service_getLogsByAddressTopic srv key address topic s e tr = Some (out, tr')
      \<longrightarrow> (\<exists>n. windows_of tr' = windows_of tr @ take n (spec_windows 1000 s e) \<and>
                (s \<le> e \<longrightarrow> 0 < n)))
   \<and> (safe_range s e \<and> internal_loop srv key address e s [] tr = Some (Inr out, tr')
      \<longrightarrow> windows_of tr' = windows_of tr @ spec_windows 10000 s e)
   \<and> (safe_range s e \<and> logs_loop srv key address topic e s [] tr = Some (Inr out, tr')
      \<longrightarrow> windows_of tr' = windows_of tr @ spec_windows 1000 s e)
   \<and> (\<forall>(a, b) \<in> set (spec_windows 10000 s e). b = min (a + 9999) e)
   \<and> (\<forall>(a, b) \<in> set (spec_windows 1000 s e). b = min (a + 999) e)"
proof (intro conjI impI)
  assume "service_getInternalTransactionsByAddress srv key address s e tr = Some (out, tr')"
  from internal_service_windows [OF this]
  show "\<exists>ws. windows_of tr' = windows_of tr @ ws \<and>
              (\<forall>(a, b) \<in> set ws. b = (if js_add a 9999 < e then js_add a 9999 else e))"
    by (simp add: internal_window_end_def)
next
  assume "service_getLogsByAddressTopic srv key address topic s e tr = Some (out, tr')"
  from logs_service_windows [OF this]
  show "\<exists>ws. windows_of tr' = windows_of tr @ ws \<and>
              (\<forall>(a, b) \<in> set ws. b = (if js_add a 999 < e then js_add a 999 else e))"
    by (simp add: logs_window_end_def)
next
  assume "safe_range s e \<and>
      service_getInternalTransactionsByAddress srv key address s e tr = Some (out, tr')"
  then have "safe_range s e"
    "service_getInternalTransactionsByAddress srv key address s e tr = Some (out, tr')"
    by simp_all
  then show "\<exists>n. windows_of tr' = windows_of tr @ take n (spec_windows 10000 s e) \<and>
              (s \<le> e \<longrightarrow> 0 < n)"
    by (rule internal_service_trace)
next
  assume "safe_range s e \<and>
      service_getLogsByAddressTopic srv key address topic s e tr = Some (out, tr')"
  then have "safe_range s e"
    "service_getLogsByAddressTopic srv key address topic s e tr = Some (out, tr')"
    by simp_all
  then show "\<exists>n. windows_of tr' = windows_of tr @ take n (spec_windows 1000 s e) \<and>
                (s \<le> e \<longrightarrow> 0 < n)"
    by (rule logs_service_trace)
next
  assume "safe_range s e \<and> internal_loop srv key address e s [] tr = Some (Inr out, tr')"
  then have "safe_range s e" "internal_loop srv key address e s [] tr = Some (Inr out, tr')"
    by simp_all
  from internal_loop_trace [OF this]
  show "windows_of tr' = windows_of tr @ spec_windows 10000 s e" by auto
next
  assume "safe_range s e \<and> logs_loop srv key address topic e s [] tr = Some (Inr out, tr')"
  then have "safe_range s e" "logs_loop srv key address topic e s [] tr = Some (Inr out, tr')"
    by simp_all
  from logs_loop_trace [OF this]
  show "windows_of tr' = windows_of tr @ spec_windows 1000 s e" by auto
next
  show "\<forall>(a, b) \<in> set (spec_windows 10000 s e). b = min (a + 9999) e"
    using spec_windows_size [of _ _ 10000 s e] by (auto simp: add.commute)
  show "\<forall>(a, b) \<in> set (spec_windows 1000 s e). b = min (a + 999) e"
    using spec_windows_size [of _ _ 1000 s e] by (auto simp: add.commute)
qed

text \<open>The logs of \<open>[0, 2999]\<close> on the server of the examples: the fetch returns, and
  its windows are among the three of size 1000.\<close>

theorem window_size_is_fixed_witness:
  "safe_range 0 2999
   \<and> (\<exists>out tr'. service_getLogsByAddressTopic example_server ''key'' ''0xa4'' ''0xddf2'' 0 2999 [] =
               Some (out, tr')
     \<and> (\<exists>n. windows_of tr' = take n [(0, 999), (1000, 1999), (2000, 2999)] \<and> 0 < n))"
proof -
  have sr: "safe_range 0 2999" by (simp add: safe_range_def)
  obtain out tr' where
    r: "service_getLogsByAddressTopic example_server ''key'' ''0xa4'' ''0xddf2'' 0 2999 [] =
          Some (out, tr')"
    using example_logs_fetch_returns [OF sr] by blast
  have w: "spec_windows 1000 0 2999 = [(0, 999), (1000, 1999), (2000, 2999)]"
    by (simp add: spec_windows_step spec_windows_empty)
  from window_size_is_fixed [THEN conjunct2, THEN conjunct2, THEN conjunct2, THEN conjunct1,
      THEN mp, OF conjI, OF sr r]
  have "\<exists>n. windows_of tr' = take n [(0, 999), (1000, 1999), (2000, 2999)] \<and> 0 < n"
    by (simp add: w)
  with r sr show ?thesis by blast
qed

text \<open>
  The claim as stated fails: if the window size could be set, a size of 2000 (or
  20000) would fetch \<open>[0, 1999]\<close> (or \<open>[0, 19999]\<close>) as one window. No arguments
  of the operations do that.
\<close>

theorem window_size_not_configurable_counterexample:
  "\<not> (\<exists>srv key address topic tr out tr'.
        service_getLogsByAddressTopic srv key address topic 0 1999 tr = Some (out, tr') \<and>
        windows_of tr' = windows_of tr @ [(0, 1999)])
   \<and> \<not> (\<exists>srv key address tr out tr'.
        service_getInternalTransactionsByAddress srv key address 0 19999 tr = Some (out, tr') \<and>
        windows_of tr' = windows_of tr @ [(0, 19999)])"
proof (intro conjI notI)
  assume "\<exists>srv key address topic tr out tr'.
        service_getLogsByAddressTopic srv key address topic 0 1999 tr = Some (out, tr') \<and>
        windows_of tr' = windows_of tr @ [(0, 1999)]"
  then obtain srv key address topic tr out tr' where
    r: "service_getLogsByAddressTopic srv key address topic 0 1999 tr = Some (out, tr')"
    and w: "windows_of tr' = windows_of tr @ [(0, 1999)]"
    by blast
  have "spec_windows 1000 0 1999 = [(0, 999), (1000, 1999)]"
    by (simp add: spec_windows_step spec_windows_empty)
  moreover have "safe_range 0 1999" by (simp add: safe_range_def)
  ultimately obtain n where
    "take n [(0, 999), (1000, 1999)] = [(0::int, 1999::int)]"
    using logs_service_trace [OF _ r] w by auto
  then show False by (cases n) simp_all
next
  assume "\<exists>srv key address tr out tr'.
        service_getInternalTransactionsByAddress srv key address 0 19999 tr = Some (out, tr') \<and>
        windows_of tr' = windows_of tr @ [(0, 19999)]"
  then obtain srv key address tr out tr' where
    r: "service_getInternalTransactionsByAddress srv key address 0 19999 tr = Some (out, tr')"
    and w: "windows_of tr' = windows_of tr @ [(0, 19999)]"
    by blast
  have "spec_windows 10000 0 19999 = [(0, 9999), (10000, 19999)]"
    by (simp add: spec_windows_step spec_windows_empty)
  moreover have "safe_range 0 19999" by (simp add: safe_range_def)
  ultimately obtain n where
    "take n [(0, 9999), (10000, 19999)] = [(0::int, 19999::int)]"
    using internal_service_trace [OF _ r] w by auto
  then show False by (cases n) simp_all
qed

end
